theory Spec2Isabelle
  imports Complex_Main "HOL-Library.Sublist" "HOL-Library.AList"
begin

section \<open>JavaScript values\<close>

text \<open>
  The arguments of the public functions are untyped JavaScript values. A number is a
  double: NaN, the two infinities, or a finite value (every finite double is a rational).
  An object other than an array is opaque (\<open>Obj\<close>): the code only ever tests its type.
\<close>

datatype js_num = NaN | PosInfinity | NegInfinity | Finite rat

datatype js_value =
  Undefined | Null | Bool bool | Num js_num | Str string | Arr "js_value list" | Obj

text \<open>Truthiness, as \<open>Boolean(v)\<close> and \<open>if (v)\<close> compute it.\<close>

fun truthy :: "js_value \<Rightarrow> bool" where
  "truthy Undefined = False"
| "truthy Null = False"
| "truthy (Bool b) = b"
| "truthy (Num NaN) = False"
| "truthy (Num (Finite q)) = (q \<noteq> 0)"
| "truthy (Num _) = True"
| "truthy (Str s) = (s \<noteq> [])"
| "truthy (Arr _) = True"
| "truthy Obj = True"

text \<open>
  \<open>typeof v === "number" && Number.isFinite(v)\<close>.
\<close>

fun finite_number :: "js_value \<Rightarrow> rat option" where
  "finite_number (Num (Finite q)) = Some q"
| "finite_number _ = None"

subsection \<open>Property keys\<close>

text \<open>
  \<open>TABLE[v]\<close> converts \<open>v\<close> to a string first and then looks the string up, on the
  table itself and then on \<open>Object.prototype\<close>. \<open>prop_key\<close> is that conversion. It is
  exact on strings, on integers below \<open>10^21\<close> and on arrays of these; of a number
  with a fractional part it keeps the integer digits and the point only, and it writes a
  larger integer without an exponent. No key of the alias tables and no member of
  \<open>Object.prototype\<close> contains a point or has 22 digits, so every lookup below hits
  or misses as in JavaScript.
\<close>

fun show_nat :: "nat \<Rightarrow> string" where
  "show_nat n =
     (if n < 10 then [''0123456789'' ! n]
      else show_nat (n div 10) @ [''0123456789'' ! (n mod 10)])"

declare show_nat.simps [simp del]

definition number_key :: "js_num \<Rightarrow> string" where
  "number_key x =
     (case x of
        NaN \<Rightarrow> ''NaN''
      | PosInfinity \<Rightarrow> ''Infinity''
      | NegInfinity \<Rightarrow> ''-Infinity''
      | Finite q \<Rightarrow>
          (if q = of_int \<lfloor>q\<rfloor>
           then (if q < 0 then ''-'' @ show_nat (nat (- \<lfloor>q\<rfloor>)) else show_nat (nat \<lfloor>q\<rfloor>))
           else (if q < 0 then ''-'' @ show_nat (nat (- \<lceil>q\<rceil>)) else show_nat (nat \<lfloor>q\<rfloor>)) @ ''.''))"

fun join_comma :: "string list \<Rightarrow> string" where
  "join_comma [] = []"
| "join_comma [s] = s"
| "join_comma (s # t # ss) = s @ '','' @ join_comma (t # ss)"

fun prop_key :: "js_value \<Rightarrow> string" where
  "prop_key Undefined = ''undefined''"
| "prop_key Null = ''null''"
| "prop_key (Bool b) = (if b then ''true'' else ''false'')"
| "prop_key (Num x) = number_key x"
| "prop_key (Str s) = s"
| "prop_key (Arr vs) =
     join_comma (map (\<lambda>v. if v = Undefined \<or> v = Null then [] else prop_key v) vs)"
| "prop_key Obj = ''[object Object]''"

definition OBJECT_PROTOTYPE_KEYS :: "string list" where
  "OBJECT_PROTOTYPE_KEYS =
     [''constructor'', ''__proto__'', ''hasOwnProperty'', ''isPrototypeOf'',
      ''propertyIsEnumerable'', ''toLocaleString'', ''toString'', ''valueOf'',
      ''__defineGetter__'', ''__defineSetter__'', ''__lookupGetter__'', ''__lookupSetter__'']"

text \<open>
  A lookup that misses the table's own keys finds a member of \<open>Object.prototype\<close>
  when the key names one; that member is not \<open>undefined\<close>, and \<open>inherited\<close> wraps it.
\<close>

definition alias_lookup :: "(string \<times> 'a) list \<Rightarrow> (string \<Rightarrow> 'a) \<Rightarrow> string \<Rightarrow> 'a option" where
  "alias_lookup table inherited k =
     (case map_of table k of
        Some v \<Rightarrow> Some v
      | None \<Rightarrow> if k \<in> set OBJECT_PROTOTYPE_KEYS then Some (inherited k) else None)"

section \<open>Constants\<close>

definition VALID_ACTIONS :: "string list" where
  "VALID_ACTIONS =
     [''angry'', ''baka'', ''bite'', ''blush'', ''bored'', ''cry'', ''cuddle'', ''dance'',
      ''facepalm'', ''feed'', ''handhold'', ''handshake'', ''happy'', ''highfive'', ''hug'',
      ''husbando'', ''kick'', ''kiss'', ''kitsune'', ''laugh'', ''lurk'', ''neko'', ''nod'',
      ''nom'', ''nope'', ''pat'', ''peck'', ''poke'', ''pout'', ''punch'', ''run'', ''shoot'',
      ''shrug'', ''slap'', ''sleep'', ''smile'', ''smug'', ''stare'', ''think'', ''thumbsup'',
      ''tickle'', ''waifu'', ''wave'', ''wink'', ''yawn'', ''yeet'']"

definition IMAGE_CATEGORIES :: "string list" where
  "IMAGE_CATEGORIES = [''husbando'', ''kitsune'', ''neko'', ''waifu'']"

text \<open>
  \<open>CONTENT_TYPES\<close> is \<open>IMAGE = 1\<close>, \<open>GIF = 2\<close>, \<open>BOTH = 3\<close>. A normalised type is
  one of these, or the member of \<open>Object.prototype\<close> that \<open>TYPE_ALIASES[type]\<close> found.
\<close>

datatype content_type = IMAGE | GIF | BOTH | InheritedType string

definition TYPE_ALIASES :: "(string \<times> content_type) list" where
  "TYPE_ALIASES =
     [(''1'', IMAGE), (''2'', GIF), (''3'', BOTH),
      (''image'', IMAGE), (''images'', IMAGE), (''gif'', GIF), (''gifs'', GIF), (''both'', BOTH)]"

datatype mode = RANDOM | DISTRIBUTED | EACH | InheritedMode string

definition MODE_ALIASES :: "(string \<times> mode) list" where
  "MODE_ALIASES =
     [(''1'', RANDOM), (''2'', DISTRIBUTED), (''3'', EACH),
      (''random'', RANDOM), (''distributed'', DISTRIBUTED), (''each'', EACH)]"

definition MAX_RETRY_ATTEMPTS :: nat where
  "MAX_RETRY_ATTEMPTS = 50"

definition BASE_URL :: string where
  "BASE_URL = ''https://nekos.best/api/v2''"

definition METADATA_FIELDS_IMAGE :: "string list" where
  "METADATA_FIELDS_IMAGE = [''artist_href'', ''artist_name'', ''source_url'']"

definition METADATA_FIELDS_GIF :: "string list" where
  "METADATA_FIELDS_GIF = [''anime_name'']"

section \<open>Errors\<close>

text \<open>
  Every \<open>throw new Error(...)\<close> of the source is one constructor, carrying what its
  message lists. \<open>TypeError\<close> is the engine's own error for a method call or a property
  read on a value that has none.
\<close>

datatype error =
    IntentAlreadyConfigured
  | InvalidMetadataFields "string list"
  | MetadataShape
  | AmountInvalid
  | InvalidActions "js_value list"
  | ActionNotInIntent string
  | NoCategoriesMatch content_type
  | TypeError

text \<open>
  The source throws plain \<open>Error\<close> objects; the specification sorts them into three
  classes by their cause (its section 7). \<open>error_class_of\<close> is that sorting.
\<close>

datatype error_class =
  ConfigurationError | ValidationError | IntentViolationError | RuntimeError

fun error_class_of :: "error \<Rightarrow> error_class" where
  "error_class_of IntentAlreadyConfigured = ConfigurationError"
| "error_class_of (InvalidMetadataFields _) = ConfigurationError"
| "error_class_of MetadataShape = ConfigurationError"
| "error_class_of AmountInvalid = ValidationError"
| "error_class_of (InvalidActions _) = ValidationError"
| "error_class_of (NoCategoriesMatch _) = ValidationError"
| "error_class_of (ActionNotInIntent _) = IntentViolationError"
| "error_class_of TypeError = RuntimeError"

section \<open>Catalog and intent state\<close>

text \<open>
  A raw record of \<open>data.json\<close>: the path suffix and the metadata strings, each of them
  present or not.
\<close>

record item =
  url :: string
  artist_href :: "string option"
  artist_name :: "string option"
  source_url :: "string option"
  anime_name :: "string option"

text \<open>
  The catalog object maps a category name to its array; \<open>None\<close> is what a read of a
  missing key gives (\<open>undefined\<close>).
\<close>

type_synonym catalog = "string \<Rightarrow> item list option"

text \<open>
  \<open>intentConfig\<close>: \<open>metadata\<close> is \<open>None\<close> for \<open>null\<close> (all fields) and a list
  otherwise; \<open>allowedCategories\<close> is a \<open>Set\<close>, kept as the list of its members in
  insertion order.
\<close>

record intent_config =
  active :: bool
  metadata :: "string list option"
  type :: content_type
  allowedCategories :: "string list"

text \<open>The module's variables. \<open>rawGifsData\<close> is \<open>None\<close> once it is set to \<open>null\<close>.\<close>

record state =
  intentConfig :: intent_config
  intentLocked :: bool
  rawGifsData :: "catalog option"
  gifsData :: catalog

definition initial_state :: "catalog \<Rightarrow> state" where
  "initial_state raw =
     \<lparr> intentConfig =
         \<lparr> active = False, metadata = None, type = BOTH, allowedCategories = VALID_ACTIONS \<rparr>,
       intentLocked = False,
       rawGifsData = Some raw,
       gifsData = raw \<rparr>"

section \<open>Helper functions\<close>

definition getContentType :: "string \<Rightarrow> content_type" where
  "getContentType category = (if category \<in> set IMAGE_CATEGORIES then IMAGE else GIF)"

definition constructFullUrl :: "string \<Rightarrow> string" where
  "constructFullUrl filename = BASE_URL @ filename"

definition normalizeType :: "js_value \<Rightarrow> content_type" where
  "normalizeType t =
     (if t = Undefined \<or> t = Null then BOTH
      else case alias_lookup TYPE_ALIASES InheritedType (prop_key t) of
             Some normalized \<Rightarrow> normalized
           | None \<Rightarrow>
               if t = Num (Finite 1) then IMAGE
               else if t = Num (Finite 2) then GIF
               else if t = Num (Finite 3) then BOTH
               else BOTH)"

definition normalizeMode :: "js_value \<Rightarrow> mode" where
  "normalizeMode m =
     (if m = Undefined \<or> m = Null then RANDOM
      else case alias_lookup MODE_ALIASES InheritedMode (prop_key m) of
             Some normalized \<Rightarrow> normalized
           | None \<Rightarrow>
               if m = Str ''random'' then RANDOM
               else if m = Str ''distributed'' then DISTRIBUTED
               else if m = Str ''each'' then EACH
               else RANDOM)"

text \<open>
  A string stands for the JavaScript string by its UTF-8 bytes. \<open>WHITE_SPACE\<close> lists
  the characters that \<open>String.prototype.trim\<close> strips, each as its byte sequence: the
  white space TAB, VT, FF, SP, NBSP (U+00A0), ZWNBSP (U+FEFF) and the other space
  separators U+1680, U+2000 to U+200A, U+202F, U+205F, U+3000, and the line terminators
  LF, CR, U+2028, U+2029.
\<close>

definition WHITE_SPACE :: "string list" where
  "WHITE_SPACE =
     ['' '', [CHR 0x09], [CHR 0x0A], [CHR 0x0B], [CHR 0x0C], [CHR 0x0D],
      [CHR 0xC2, CHR 0xA0],
      [CHR 0xE1, CHR 0x9A, CHR 0x80],
      [CHR 0xE2, CHR 0x80, CHR 0x80], [CHR 0xE2, CHR 0x80, CHR 0x81],
      [CHR 0xE2, CHR 0x80, CHR 0x82], [CHR 0xE2, CHR 0x80, CHR 0x83],
      [CHR 0xE2, CHR 0x80, CHR 0x84], [CHR 0xE2, CHR 0x80, CHR 0x85],
      [CHR 0xE2, CHR 0x80, CHR 0x86], [CHR 0xE2, CHR 0x80, CHR 0x87],
      [CHR 0xE2, CHR 0x80, CHR 0x88], [CHR 0xE2, CHR 0x80, CHR 0x89],
      [CHR 0xE2, CHR 0x80, CHR 0x8A],
      [CHR 0xE2, CHR 0x80, CHR 0xA8], [CHR 0xE2, CHR 0x80, CHR 0xA9],
      [CHR 0xE2, CHR 0x80, CHR 0xAF],
      [CHR 0xE2, CHR 0x81, CHR 0x9F],
      [CHR 0xE3, CHR 0x80, CHR 0x80],
      [CHR 0xEF, CHR 0xBB, CHR 0xBF]]"

text \<open>
  \<open>strip_front\<close> removes from the front of a string every character of a list of
  byte sequences; \<open>trim\<close> strips the white space from the front, and from the end by
  the same function on the reversed string.
\<close>

function strip_front :: "string list \<Rightarrow> string \<Rightarrow> string" where
  "strip_front seqs x =
     (case List.find (\<lambda>w. w \<noteq> [] \<and> prefix w x) seqs of
        None \<Rightarrow> x
      | Some w \<Rightarrow> strip_front seqs (drop (length w) x))"
  by pat_completeness auto
termination
  by (relation "measure (\<lambda>(seqs, x). length x)") (auto simp: find_Some_iff prefix_def)

declare strip_front.simps [simp del]

definition trim :: "string \<Rightarrow> string" where
  "trim x = rev (strip_front (map rev WHITE_SPACE) (rev (strip_front WHITE_SPACE x)))"

section \<open>Intent functions\<close>

text \<open>A destructuring default replaces \<open>undefined\<close> only.\<close>

definition default_to :: "js_value \<Rightarrow> js_value \<Rightarrow> js_value" where
  "default_to d v = (if v = Undefined then d else v)"

text \<open>The argument of \<open>callNekoIntent\<close>; a property that is not given is \<open>Undefined\<close>.\<close>

record intent_options =
  io_metadata :: js_value
  io_type :: js_value

text \<open>
  \<open>metadata.map((f) => f.trim())\<close>: an entry that is not a string has no \<open>trim\<close>, and
  the call throws a \<open>TypeError\<close> (\<open>None\<close>).
\<close>

fun trim_entries :: "js_value list \<Rightarrow> string list option" where
  "trim_entries [] = Some []"
| "trim_entries (Str f # fs) = map_option ((#) (trim f)) (trim_entries fs)"
| "trim_entries (_ # fs) = None"

text \<open>
  The metadata part of \<open>callNekoIntent\<close> up to its \<open>throw\<close>s (lines 203 to 256): the
  value of \<open>metadataFields\<close>, \<open>None\<close> for \<open>null\<close>.
\<close>

definition intent_metadata :: "js_value \<Rightarrow> content_type \<Rightarrow> error + string list option" where
  "intent_metadata md normalizedType =
     (if md = Undefined \<or> md = Null then Inr None
      else if md = Num (Finite 0) \<or> md = Bool False then Inr (Some [])
      else if md = Num (Finite 1) \<or> md = Bool True then Inr None
      else case md of
        Arr entries \<Rightarrow>
          (case trim_entries entries of
             None \<Rightarrow> Inl TypeError
           | Some trimmed \<Rightarrow>
               let requestedFields = filter (\<lambda>f. f \<noteq> []) trimmed;
                   allValidFields = METADATA_FIELDS_IMAGE @ METADATA_FIELDS_GIF;
                   invalidFields = filter (\<lambda>f. f \<notin> set allValidFields) requestedFields
               in if length invalidFields > 0 then Inl (InvalidMetadataFields invalidFields)
                  else Inr (Some
                    ((if normalizedType = GIF \<or> normalizedType = BOTH
                      then filter (\<lambda>f. f \<in> set METADATA_FIELDS_GIF) requestedFields else [])
                     @ (if normalizedType = IMAGE \<or> normalizedType = BOTH
                        then filter (\<lambda>f. f \<in> set METADATA_FIELDS_IMAGE) requestedFields else []))))
      | _ \<Rightarrow> Inl MetadataShape)"

text \<open>
  \<open>callNekoIntent\<close> returns its outcome and the module state it leaves. A \<open>throw\<close>
  leaves the state as it is at that line. The last loop reads \<open>rawGifsData[category]\<close>;
  were \<open>rawGifsData\<close> already \<open>null\<close> there, the first read would throw after the
  assignments before it.
\<close>

definition callNekoIntent :: "intent_options \<Rightarrow> state \<Rightarrow> (error + unit) \<times> state" where
  "callNekoIntent options s =
     (if intentLocked s then (Inl IntentAlreadyConfigured, s)
      else
        let type_arg = default_to (Num (Finite 3)) (io_type options);
            normalizedType = normalizeType type_arg;
            allowed = filter (\<lambda>action. normalizedType = BOTH \<or> getContentType action = normalizedType)
                        VALID_ACTIONS
        in case intent_metadata (io_metadata options) normalizedType of
             Inl e \<Rightarrow> (Inl e, s)
           | Inr metadataFields0 \<Rightarrow>
               let metadataFields =
                     (case metadataFields0 of
                        None \<Rightarrow> if normalizedType = IMAGE then Some METADATA_FIELDS_IMAGE
                                else if normalizedType = GIF then Some METADATA_FIELDS_GIF
                                else None
                      | Some fs \<Rightarrow> Some fs);
                   s1 = s\<lparr> intentConfig :=
                            \<lparr> active = True, metadata = metadataFields, type = normalizedType,
                              allowedCategories = allowed \<rparr>,
                          intentLocked := True,
                          gifsData := Map.empty \<rparr>
               in case rawGifsData s of
                    Some raw \<Rightarrow>
                      (Inr (), s1\<lparr> gifsData := foldl (\<lambda>g category. g(category := raw category))
                                                  Map.empty allowed,
                                   rawGifsData := None \<rparr>)
                  | None \<Rightarrow>
                      if allowed = [] then (Inr (), s1) else (Inl TypeError, s1))"

text \<open>A sequence of \<open>callNekoIntent\<close> calls: the outcomes in order and the final state.\<close>

fun callNekoIntent_seq :: "intent_options list \<Rightarrow> state \<Rightarrow> (error + unit) list \<times> state" where
  "callNekoIntent_seq [] s = ([], s)"
| "callNekoIntent_seq (options # rest) s =
     (case callNekoIntent options s of
        (r, s') \<Rightarrow> (case callNekoIntent_seq rest s' of (rs, s'') \<Rightarrow> (r # rs, s'')))"

section \<open>Randomness\<close>

text \<open>
  \<open>Math.floor(Math.random() * n)\<close> is an index below \<open>n\<close>, and the code depends
  on nothing else of \<open>Math.random\<close>. The source of randomness is a sequence of
  naturals fixed in advance (\<open>gen\<close>) together with the number of draws made so far
  (\<open>pos\<close>): the next index below \<open>n\<close> is the next natural modulo \<open>n\<close>. Every
  sequence of indices is the outcome of some \<open>gen\<close>.
\<close>

record rng =
  gen :: "nat \<Rightarrow> nat"
  pos :: nat

definition random_index :: "nat \<Rightarrow> rng \<Rightarrow> nat \<times> rng" where
  "random_index n g = (gen g (pos g) mod n, g\<lparr> pos := Suc (pos g) \<rparr>)"

section \<open>Response objects\<close>

text \<open>
  A response is a JavaScript object: its own properties in insertion order, each with
  its value. A property that was assigned \<open>undefined\<close> is a property of the object.
\<close>

type_synonym js_object = "(string \<times> js_value) list"

text \<open>Reading a metadata property of a raw record: its string, or \<open>undefined\<close>.\<close>

fun read_field :: "string option \<Rightarrow> js_value" where
  "read_field None = Undefined"
| "read_field (Some v) = Str v"

fun type_number :: "content_type \<Rightarrow> js_value" where
  "type_number IMAGE = Num (Finite 1)"
| "type_number GIF = Num (Finite 2)"
| "type_number BOTH = Num (Finite 3)"
| "type_number (InheritedType k) = Obj"

definition shouldIncludeMetadataField :: "state \<Rightarrow> string \<Rightarrow> string \<Rightarrow> bool" where
  "shouldIncludeMetadataField s field category =
     (if \<not> active (intentConfig s) then True
      else case metadata (intentConfig s) of
        None \<Rightarrow>
          if getContentType category = IMAGE then field \<in> set METADATA_FIELDS_IMAGE
          else field \<in> set METADATA_FIELDS_GIF
      | Some listed \<Rightarrow>
          if length listed = 0 then False else field \<in> set listed)"

definition createResponseObject :: "state \<Rightarrow> item \<Rightarrow> string \<Rightarrow> js_object" where
  "createResponseObject s it category =
     (let baseResponse =
            [(''url'', Str (constructFullUrl (url it))),
             (''action'', Str category),
             (''type'', type_number (getContentType category))]
      in if category \<in> set IMAGE_CATEGORIES
         then baseResponse
              @ (if shouldIncludeMetadataField s ''artist_href'' category
                 then [(''artist_href'', read_field (artist_href it))] else [])
              @ (if shouldIncludeMetadataField s ''artist_name'' category
                 then [(''artist_name'', read_field (artist_name it))] else [])
              @ (if shouldIncludeMetadataField s ''source_url'' category
                 then [(''source_url'', read_field (source_url it))] else [])
         else baseResponse
              @ (if shouldIncludeMetadataField s ''anime_name'' category
                 then [(''anime_name'', read_field (anime_name it))] else []))"

text \<open>The names of the properties of a response besides \<open>url\<close>, \<open>action\<close>, \<open>type\<close>.\<close>

definition metadata_keys :: "js_object \<Rightarrow> string list" where
  "metadata_keys obj = filter (\<lambda>k. k \<notin> set [''url'', ''action'', ''type'']) (map fst obj)"

definition url_of :: "js_object \<Rightarrow> js_value option" where
  "url_of obj = map_of obj ''url''"

definition action_of :: "js_object \<Rightarrow> js_value option" where
  "action_of obj = map_of obj ''action''"

section \<open>Request normalisation\<close>

fun str_of :: "js_value \<Rightarrow> string option" where
  "str_of (Str x) = Some x"
| "str_of _ = None"

definition validateIntentAction :: "state \<Rightarrow> string \<Rightarrow> error option" where
  "validateIntentAction s action =
     (if active (intentConfig s) \<and> action \<notin> set (allowedCategories (intentConfig s))
      then Some (ActionNotInIntent action) else None)"

definition normalizeActions :: "state \<Rightarrow> js_value \<Rightarrow> error + string list" where
  "normalizeActions s actions =
     (if actions = Undefined \<or> actions = Null
      then (if active (intentConfig s) then Inr (allowedCategories (intentConfig s))
            else Inr VALID_ACTIONS)
      else
        let actionArray = (case actions of Arr vs \<Rightarrow> vs | v \<Rightarrow> [v]);
            invalidActions = filter (\<lambda>a. a \<notin> set (map Str VALID_ACTIONS)) actionArray
        in if length invalidActions > 0 then Inl (InvalidActions invalidActions)
           else case List.map_filter (validateIntentAction s) (List.map_filter str_of actionArray) of
                  e # _ \<Rightarrow> Inl e
                | [] \<Rightarrow> Inr (List.map_filter str_of actionArray))"

definition normalizeSearch :: "js_value \<Rightarrow> string list" where
  "normalizeSearch search =
     (if search = Undefined \<or> search = Null \<or> search = Str [] then []
      else
        let searchArray = (case search of Arr vs \<Rightarrow> vs | v \<Rightarrow> [v])
        in filter (\<lambda>x. x \<noteq> [])
             (map (\<lambda>v. case v of Str x \<Rightarrow> trim x | _ \<Rightarrow> []) searchArray))"

definition matchesContentType :: "string \<Rightarrow> content_type \<Rightarrow> bool" where
  "matchesContentType category contentType =
     (if contentType = BOTH then True else getContentType category = contentType)"

text \<open>
  \<open>String.prototype.toLowerCase\<close> belongs to the host: its Unicode case table is no
  part of the repository. The functions that reach it take it as their first argument,
  \<open>lower\<close>. \<open>str_includes\<close> is the substring test of \<open>includes\<close>; on the
  UTF-8 bytes of two strings it finds what the test on their characters finds.
\<close>

fun str_includes :: "string \<Rightarrow> string \<Rightarrow> bool" where
  "str_includes [] t = (t = [])"
| "str_includes (c # x) t = (prefix t (c # x) \<or> str_includes x t)"

definition matchesSearch :: "(string \<Rightarrow> string) \<Rightarrow> item \<Rightarrow> string \<Rightarrow> string list \<Rightarrow> bool" where
  "matchesSearch lower it category searchTerms =
     (if length searchTerms = 0 then True
      else
        let searchField = (if category \<in> set IMAGE_CATEGORIES then artist_name it
                           else anime_name it)
        in case searchField of
             None \<Rightarrow> False
           | Some field \<Rightarrow>
               if field = [] then False
               else let fieldLower = lower field
                    in list_ex (\<lambda>t. str_includes fieldLower (lower t)) searchTerms)"

definition validateAndFilterCategories :: "string list \<Rightarrow> content_type \<Rightarrow> error + string list" where
  "validateAndFilterCategories categories contentType =
     (let filtered = filter (\<lambda>cat. matchesContentType cat contentType) categories
      in if length filtered = 0 then Inl (NoCategoriesMatch contentType) else Inr filtered)"

text \<open>
  \<open>filteredMap\<close> is a \<open>Map\<close>: its entries in insertion order, where \<open>set\<close> on a key
  already there replaces the value in place (\<open>AList.update\<close>).
\<close>

definition buildSearchFilteredCategories ::
  "(string \<Rightarrow> string) \<Rightarrow> state \<Rightarrow> string list \<Rightarrow> string list \<Rightarrow> (string \<times> item list) list" where
  "buildSearchFilteredCategories lower s categories searchTerms =
     foldl (\<lambda>filteredMap category.
              case gifsData s category of
                None \<Rightarrow> filteredMap
              | Some categoryItems \<Rightarrow>
                  let filtered = filter (\<lambda>it. matchesSearch lower it category searchTerms) categoryItems
                  in if length filtered > 0 then AList.update category filtered filteredMap
                     else filteredMap)
           [] categories"

section \<open>Selection\<close>

text \<open>The loop of \<open>getRandomItems\<close> that draws with replacement (\<open>allowDuplicates\<close>).\<close>

function duplicates_loop ::
  "state \<Rightarrow> item list \<Rightarrow> string \<Rightarrow> nat \<Rightarrow> nat \<Rightarrow> js_object list \<Rightarrow> rng \<Rightarrow> js_object list \<times> rng" where
  "duplicates_loop s items category count i result g =
     (if i < count
      then case random_index (length items) g of
             (k, g') \<Rightarrow>
               duplicates_loop s items category count (i + 1)
                 (result @ [createResponseObject s (items ! k) category]) g'
      else (result, g))"
  by pat_completeness auto
termination
  by (relation "measure (\<lambda>(s, items, category, count, i, result, g). count - i)") auto

declare duplicates_loop.simps [simp del]

text \<open>
  The partial Fisher-Yates shuffle of \<open>getRandomItems\<close>. The destructuring swap reads
  both entries of \<open>indices\<close> before it writes them.
\<close>

function shuffle_loop ::
  "state \<Rightarrow> item list \<Rightarrow> string \<Rightarrow> nat \<Rightarrow> nat \<Rightarrow> nat list \<Rightarrow> js_object list \<Rightarrow> rng
   \<Rightarrow> js_object list \<times> rng" where
  "shuffle_loop s items category actualCount i indices result g =
     (if i < actualCount
      then case random_index (length items - i) g of
             (r, g') \<Rightarrow>
               let randomIndex = i + r;
                   indices' = indices[i := indices ! randomIndex, randomIndex := indices ! i]
               in shuffle_loop s items category actualCount (i + 1) indices'
                    (result @ [createResponseObject s (items ! (indices' ! i)) category]) g'
      else (result, g))"
  by pat_completeness auto
termination
  by (relation "measure (\<lambda>(s, items, category, actualCount, i, indices, result, g). actualCount - i)")
     auto

declare shuffle_loop.simps [simp del]

definition getRandomItems ::
  "state \<Rightarrow> item list \<Rightarrow> nat \<Rightarrow> string \<Rightarrow> bool \<Rightarrow> rng \<Rightarrow> js_object list \<times> rng" where
  "getRandomItems s items count category allowDuplicates g =
     (let available = length items
      in if available = 0 then ([], g)
         else if \<not> allowDuplicates \<and> count \<ge> available
         then (map (\<lambda>it. createResponseObject s it category) items, g)
         else if allowDuplicates
         then duplicates_loop s items category count 0 [] g
         else shuffle_loop s items category (min count available) 0 [0..<available] [] g)"

text \<open>
  The \<open>while\<close> loop of \<open>selectRandomMode\<close>: up to \<open>MAX_RETRY_ATTEMPTS\<close> draws from
  one category for an item whose URL is not in \<open>usedUrls\<close>. It returns \<open>foundUnique\<close>
  and the updated \<open>result\<close> and \<open>usedUrls\<close>.
\<close>

function retry_loop ::
  "state \<Rightarrow> string \<Rightarrow> item list \<Rightarrow> nat \<Rightarrow> bool \<Rightarrow> js_object list \<Rightarrow> string list \<Rightarrow> rng
   \<Rightarrow> bool \<times> js_object list \<times> string list \<times> rng" where
  "retry_loop s randomCategory categoryItems attempts foundUnique result usedUrls g =
     (if attempts < MAX_RETRY_ATTEMPTS \<and> \<not> foundUnique
      then case random_index (length categoryItems) g of
             (k, g') \<Rightarrow>
               let randomItem = categoryItems ! k;
                   u = constructFullUrl (url randomItem)
               in if u \<notin> set usedUrls
                  then retry_loop s randomCategory categoryItems (attempts + 1) True
                         (result @ [createResponseObject s randomItem randomCategory])
                         (List.insert u usedUrls) g'
                  else retry_loop s randomCategory categoryItems (attempts + 1) foundUnique
                         result usedUrls g'
      else (foundUnique, result, usedUrls, g))"
  by pat_completeness auto
termination
  by (relation "measure (\<lambda>(s, randomCategory, categoryItems, attempts, foundUnique, result,
                           usedUrls, g). MAX_RETRY_ATTEMPTS - attempts)") auto

declare retry_loop.simps [simp del]

text \<open>
  The \<open>for\<close> loop of \<open>selectRandomMode\<close> over several categories. Entry \<open>c\<close> of
  \<open>filteredMap\<close> holds the key \<open>availableCategories[c]\<close> and the value that
  \<open>filteredMap.get\<close> returns for it.
\<close>

function random_loop ::
  "state \<Rightarrow> nat \<Rightarrow> (string \<times> item list) list \<Rightarrow> bool \<Rightarrow> nat \<Rightarrow> js_object list \<Rightarrow> string list
   \<Rightarrow> rng \<Rightarrow> js_object list \<times> rng" where
  "random_loop s amount filteredMap allowDuplicates i result usedUrls g =
     (if i < amount
      then case random_index (length filteredMap) g of
             (c, g1) \<Rightarrow>
               (case filteredMap ! c of
                  (randomCategory, categoryItems) \<Rightarrow>
                    if allowDuplicates
                    then case random_index (length categoryItems) g1 of
                           (k, g2) \<Rightarrow>
                             random_loop s amount filteredMap allowDuplicates (i + 1)
                               (result @ [createResponseObject s (categoryItems ! k) randomCategory])
                               usedUrls g2
                    else case retry_loop s randomCategory categoryItems 0 False result usedUrls g1 of
                           (foundUnique, result', usedUrls', g2) \<Rightarrow>
                             if \<not> foundUnique then (result', g2)
                             else random_loop s amount filteredMap allowDuplicates (i + 1)
                                    result' usedUrls' g2)
      else (result, g))"
  by pat_completeness auto
termination
  by (relation "measure (\<lambda>(s, amount, filteredMap, allowDuplicates, i, result, usedUrls, g).
                           amount - i)") auto

declare random_loop.simps [simp del]

definition selectRandomMode ::
  "(string \<Rightarrow> string) \<Rightarrow> state \<Rightarrow> nat \<Rightarrow> string list \<Rightarrow> string list \<Rightarrow> bool \<Rightarrow> rng \<Rightarrow> js_object list \<times> rng" where
  "selectRandomMode lower s amount categories searchTerms allowDuplicates g =
     (let filteredMap = buildSearchFilteredCategories lower s categories searchTerms
      in if length filteredMap = 0 then ([], g)
         else if length filteredMap = 1
         then case filteredMap ! 0 of
                (category, pool) \<Rightarrow> getRandomItems s pool amount category allowDuplicates g
         else random_loop s amount filteredMap allowDuplicates 0 [] [] g)"

text \<open>The \<open>forEach\<close> of \<open>selectDistributedMode\<close>, with its index.\<close>

fun distributed_loop ::
  "state \<Rightarrow> nat \<Rightarrow> nat \<Rightarrow> bool \<Rightarrow> (string \<times> item list) list \<Rightarrow> nat \<Rightarrow> js_object list \<Rightarrow> rng
   \<Rightarrow> js_object list \<times> rng" where
  "distributed_loop s baseAmount remainder allowDuplicates [] index result g = (result, g)"
| "distributed_loop s baseAmount remainder allowDuplicates ((cat, pool) # rest) index result g =
     (let categoryAmount = (if index < remainder then baseAmount + 1 else baseAmount)
      in case getRandomItems s pool categoryAmount cat allowDuplicates g of
           (items, g') \<Rightarrow>
             distributed_loop s baseAmount remainder allowDuplicates rest (index + 1)
               (result @ items) g')"

definition selectDistributedMode ::
  "(string \<Rightarrow> string) \<Rightarrow> state \<Rightarrow> nat \<Rightarrow> string list \<Rightarrow> string list \<Rightarrow> bool \<Rightarrow> rng \<Rightarrow> js_object list \<times> rng" where
  "selectDistributedMode lower s amount categories searchTerms allowDuplicates g =
     (let filteredMap = buildSearchFilteredCategories lower s categories searchTerms
      in if length filteredMap = 0 then ([], g)
         else
           let baseAmount = amount div length filteredMap;
               remainder = amount mod length filteredMap
           in distributed_loop s baseAmount remainder allowDuplicates filteredMap 0 [] g)"

fun each_loop ::
  "state \<Rightarrow> nat \<Rightarrow> bool \<Rightarrow> (string \<times> item list) list \<Rightarrow> js_object list \<Rightarrow> rng
   \<Rightarrow> js_object list \<times> rng" where
  "each_loop s amount allowDuplicates [] result g = (result, g)"
| "each_loop s amount allowDuplicates ((cat, pool) # rest) result g =
     (case getRandomItems s pool amount cat allowDuplicates g of
        (items, g') \<Rightarrow> each_loop s amount allowDuplicates rest (result @ items) g')"

definition selectEachMode ::
  "(string \<Rightarrow> string) \<Rightarrow> state \<Rightarrow> nat \<Rightarrow> string list \<Rightarrow> string list \<Rightarrow> bool \<Rightarrow> rng \<Rightarrow> js_object list \<times> rng" where
  "selectEachMode lower s amount categories searchTerms allowDuplicates g =
     (let filteredMap = buildSearchFilteredCategories lower s categories searchTerms
      in if length filteredMap = 0 then ([], g)
         else each_loop s amount allowDuplicates filteredMap [] g)"

section \<open>The fetch operation\<close>

text \<open>The argument of \<open>callNeko\<close>; a property that is not given is \<open>Undefined\<close>.\<close>

record neko_options =
  o_amount :: js_value
  o_actions :: js_value
  o_search :: js_value
  o_type :: js_value
  o_mode :: js_value
  o_dupe :: js_value

text \<open>\<open>callNeko()\<close> and \<open>callNeko({})\<close>: no property is given.\<close>

definition no_options :: neko_options where
  "no_options =
     \<lparr> o_amount = Undefined, o_actions = Undefined, o_search = Undefined,
       o_type = Undefined, o_mode = Undefined, o_dupe = Undefined \<rparr>"

text \<open>
  The normalised options. \<open>amount\<close> is at least 1 when \<open>parseOptions\<close> returns, so
  \<open>Math.floor(amount)\<close> is kept as a natural number.
\<close>

record params =
  p_amount :: nat
  p_actions :: "string list"
  p_search :: "string list"
  p_type :: content_type
  p_mode :: mode
  p_dupe :: bool

definition parseOptions :: "state \<Rightarrow> neko_options \<Rightarrow> error + params" where
  "parseOptions s options =
     (let amount = default_to (Num (Finite 1)) (o_amount options);
          dupe = default_to (Bool False) (o_dupe options)
      in case finite_number amount of
           None \<Rightarrow> Inl AmountInvalid
         | Some q \<Rightarrow>
             if q < 1 then Inl AmountInvalid
             else case normalizeActions s (o_actions options) of
                    Inl e \<Rightarrow> Inl e
                  | Inr normalizedActions \<Rightarrow>
                      let normalizedSearch = normalizeSearch (o_search options);
                          normalizedType = normalizeType (o_type options);
                          normalizedMode = normalizeMode (o_mode options)
                      in case validateAndFilterCategories normalizedActions normalizedType of
                           Inl e \<Rightarrow> Inl e
                         | Inr validActions \<Rightarrow>
                             Inr \<lparr> p_amount = nat \<lfloor>q\<rfloor>, p_actions = validActions,
                                   p_search = normalizedSearch, p_type = normalizedType,
                                   p_mode = normalizedMode, p_dupe = truthy dupe \<rparr>)"

text \<open>The \<open>switch\<close> of \<open>callNeko\<close>; it has no default branch, and \<open>result\<close> starts empty.\<close>

definition select_by_mode :: "(string \<Rightarrow> string) \<Rightarrow> state \<Rightarrow> params \<Rightarrow> rng \<Rightarrow> js_object list \<times> rng" where
  "select_by_mode lower s p g =
     (case p_mode p of
        RANDOM \<Rightarrow> selectRandomMode lower s (p_amount p) (p_actions p) (p_search p) (p_dupe p) g
      | DISTRIBUTED \<Rightarrow> selectDistributedMode lower s (p_amount p) (p_actions p) (p_search p) (p_dupe p) g
      | EACH \<Rightarrow> selectEachMode lower s (p_amount p) (p_actions p) (p_search p) (p_dupe p) g
      | InheritedMode k \<Rightarrow> ([], g))"

text \<open>
  \<open>callNeko\<close> returns one object or an array of objects, or throws; the model also
  returns the source of randomness as the call leaves it.
\<close>

datatype neko_result = Single js_object | Many "js_object list"

definition callNeko :: "(string \<Rightarrow> string) \<Rightarrow> state \<Rightarrow> neko_options \<Rightarrow> rng \<Rightarrow> (error + neko_result) \<times> rng" where
  "callNeko lower s options g =
     (case parseOptions s options of
        Inl e \<Rightarrow> (Inl e, g)
      | Inr p \<Rightarrow>
          (case select_by_mode lower s p g of
             (result, g') \<Rightarrow>
               (Inr (if p_amount p = 1 \<and> length result = 1 then Single (result ! 0)
                     else Many result), g')))"

section \<open>Notions of the specification\<close>

text \<open>
  The definitions of this section are not functions of the source. They state, in the
  specification's words, what the functions above are compared with.
\<close>


text \<open>The categories a request without \<open>actions\<close> ranges over.\<close>

definition default_actions :: "state \<Rightarrow> string list" where
  "default_actions s =
     (if active (intentConfig s) then allowedCategories (intentConfig s) else VALID_ACTIONS)"

text \<open>The items of a result, unwrapped or not.\<close>

fun items_of :: "neko_result \<Rightarrow> js_object list" where
  "items_of (Single x) = [x]"
| "items_of (Many xs) = xs"

text \<open>
  The fields valid for a kind, and the fields the gate's policy lets through: every
  field while the gate is not configured or the policy is "all", the listed fields
  otherwise.
\<close>

definition kind_fields :: "content_type \<Rightarrow> string set" where
  "kind_fields kind = set (if kind = IMAGE then METADATA_FIELDS_IMAGE else METADATA_FIELDS_GIF)"

definition policy_fields :: "state \<Rightarrow> string set" where
  "policy_fields s =
     (if \<not> active (intentConfig s) then set (METADATA_FIELDS_IMAGE @ METADATA_FIELDS_GIF)
      else case metadata (intentConfig s) of
             None \<Rightarrow> set (METADATA_FIELDS_IMAGE @ METADATA_FIELDS_GIF)
           | Some listed \<Rightarrow> set listed)"

text \<open>The metadata property of a raw record by its name.\<close>

definition record_field :: "item \<Rightarrow> string \<Rightarrow> string option" where
  "record_field it k =
     (if k = ''artist_href'' then artist_href it
      else if k = ''artist_name'' then artist_name it
      else if k = ''source_url'' then source_url it
      else if k = ''anime_name'' then anime_name it
      else None)"

text \<open>
  Metadata entries in the specification's words, without \<open>trim\<close>: an entry is a name
  (\<open>core\<close>) with white-space characters before and after it. The name is empty, or
  \<open>clean\<close>: it neither starts nor ends with a white-space character.
\<close>

definition clean :: "string \<Rightarrow> bool" where
  "clean core \<longleftrightarrow>
     core \<noteq> [] \<and> list_all (\<lambda>w. \<not> prefix w core \<and> \<not> prefix (rev w) (rev core)) WHITE_SPACE"

type_synonym padded_entry = "string list \<times> string \<times> string list"

definition padded :: "padded_entry \<Rightarrow> string" where
  "padded e = (case e of (before, core, after) \<Rightarrow> concat before @ core @ concat after)"

definition core_of :: "padded_entry \<Rightarrow> string" where
  "core_of e = fst (snd e)"

definition well_padded :: "padded_entry \<Rightarrow> bool" where
  "well_padded e =
     (case e of (before, core, after) \<Rightarrow>
        list_all (\<lambda>w. w \<in> set WHITE_SPACE) before \<and>
        list_all (\<lambda>w. w \<in> set WHITE_SPACE) after \<and>
        (core = [] \<or> clean core))"

text \<open>
  Distributed mode in the specification's words: with \<open>n\<close> categories, the first
  \<open>amount mod n\<close> of them get \<open>amount div n + 1\<close> and the others \<open>amount div n\<close>;
  each category's share is drawn with \<open>getRandomItems\<close>, one category after the
  other, and the draws are concatenated. \<open>contribution\<close> is the number of items one
  category gives.
\<close>

definition distributed_shares :: "nat \<Rightarrow> nat \<Rightarrow> nat list" where
  "distributed_shares amount n =
     map (\<lambda>index. if index < amount mod n then amount div n + 1 else amount div n) [0..<n]"

fun draw_each ::
  "state \<Rightarrow> bool \<Rightarrow> ((string \<times> item list) \<times> nat) list \<Rightarrow> rng \<Rightarrow> js_object list \<times> rng" where
  "draw_each s allowDup [] g = ([], g)"
| "draw_each s allowDup (((cat, pool), k) # rest) g =
     (case getRandomItems s pool k cat allowDup g of
        (items, g') \<Rightarrow>
          (case draw_each s allowDup rest g' of (others, g'') \<Rightarrow> (items @ others, g'')))"

definition contribution :: "bool \<Rightarrow> (string \<times> item list) \<times> nat \<Rightarrow> nat" where
  "contribution allowDup e =
     (case e of ((cat, pool), k) \<Rightarrow>
        if pool = [] then 0 else if allowDup then k else min k (length pool))"

text \<open>
  Random mode without duplicates in the specification's words. \<open>attempt_item\<close> is the
  item that the \<open>k\<close>-th of the next draws picks from a pool, and \<open>fresh_attempt\<close>
  the first of the next \<open>MAX_RETRY_ATTEMPTS\<close> draws whose item has a URL that is not
  used yet, if there is one. \<open>unique_draws\<close> makes the remaining draws: each picks a
  category and then the first fresh attempt in it; when there is none, sampling stops
  and the result is what has been collected so far.
\<close>

definition attempt_item :: "item list \<Rightarrow> rng \<Rightarrow> nat \<Rightarrow> item" where
  "attempt_item pool g k = pool ! (gen g (pos g + k) mod length pool)"

definition fresh_attempt :: "item list \<Rightarrow> string list \<Rightarrow> rng \<Rightarrow> nat option" where
  "fresh_attempt pool usedUrls g =
     List.find (\<lambda>k. constructFullUrl (url (attempt_item pool g k)) \<notin> set usedUrls)
       [0..<MAX_RETRY_ATTEMPTS]"

fun unique_draws ::
  "state \<Rightarrow> (string \<times> item list) list \<Rightarrow> nat \<Rightarrow> js_object list \<Rightarrow> string list \<Rightarrow> rng
   \<Rightarrow> js_object list \<times> rng" where
  "unique_draws s fm 0 result usedUrls g = (result, g)"
| "unique_draws s fm (Suc n) result usedUrls g =
     (case fm ! (gen g (pos g) mod length fm) of
        (cat, pool) \<Rightarrow>
          (case fresh_attempt pool usedUrls (g\<lparr> pos := pos g + 1 \<rparr>) of
             None \<Rightarrow> (result, g\<lparr> pos := pos g + 1 + MAX_RETRY_ATTEMPTS \<rparr>)
           | Some k \<Rightarrow>
               unique_draws s fm n
                 (result @ [createResponseObject s
                              (attempt_item pool (g\<lparr> pos := pos g + 1 \<rparr>) k) cat])
                 (List.insert
                    (constructFullUrl (url (attempt_item pool (g\<lparr> pos := pos g + 1 \<rparr>) k)))
                    usedUrls)
                 (g\<lparr> pos := pos g + 1 + (k + 1) \<rparr>)))"

text \<open>
  The invariant of Random mode without duplicates: the URLs of \<open>result\<close> are pairwise
  different and \<open>usedUrls\<close> holds exactly them.
\<close>

definition urls_tracked :: "js_object list \<Rightarrow> string list \<Rightarrow> bool" where
  "urls_tracked result usedUrls \<longleftrightarrow>
     distinct (map url_of result) \<and>
     set (map url_of result) = (\<lambda>u. Some (Str u)) ` set usedUrls"

section \<open>Example data\<close>

definition hug1 :: item where
  "hug1 = \<lparr> url = ''/hug/001.gif'', artist_href = None, artist_name = None,
            source_url = None, anime_name = Some ''Naruto'' \<rparr>"

definition hug2 :: item where
  "hug2 = \<lparr> url = ''/hug/002.gif'', artist_href = None, artist_name = None,
            source_url = None, anime_name = None \<rparr>"

definition waifu1 :: item where
  "waifu1 = \<lparr> url = ''/waifu/001.png'', artist_href = Some ''https://example.org/a'',
              artist_name = Some ''Aki'', source_url = None, anime_name = None \<rparr>"

definition waifu2 :: item where
  "waifu2 = \<lparr> url = ''/waifu/002.png'', artist_href = None,
              artist_name = Some ''Bo'', source_url = Some ''https://example.org/s'',
              anime_name = None \<rparr>"

definition example_catalog :: catalog where
  "example_catalog = [''hug'' \<mapsto> [hug1, hug2], ''waifu'' \<mapsto> [waifu1, waifu2]]"

definition images_no_metadata :: intent_options where
  "images_no_metadata = \<lparr> io_metadata = Num (Finite 0), io_type = Num (Finite 1) \<rparr>"

definition gifs_all_metadata :: intent_options where
  "gifs_all_metadata = \<lparr> io_metadata = Bool True, io_type = Str ''gifs'' \<rparr>"

definition locked_images :: state where
  "locked_images = snd (callNekoIntent images_no_metadata (initial_state example_catalog))"

text \<open>
  A lowering function for the examples, whose strings are ASCII: it lowers the letters A
  to Z and keeps every other byte.
\<close>

definition ascii_lower :: "string \<Rightarrow> string" where
  "ascii_lower x =
     map (\<lambda>c. case map_of (zip ''ABCDEFGHIJKLMNOPQRSTUVWXYZ'' ''abcdefghijklmnopqrstuvwxyz'') c of
                 Some l \<Rightarrow> l | None \<Rightarrow> c) x"

definition rng_zeros :: rng where
  "rng_zeros = \<lparr> gen = (\<lambda>k. 0), pos = 0 \<rparr>"

definition rng_ones :: rng where
  "rng_ones = \<lparr> gen = (\<lambda>k. 1), pos = 0 \<rparr>"

definition rng_count :: rng where
  "rng_count = \<lparr> gen = (\<lambda>k. k), pos = 0 \<rparr>"

definition anime_for_gifs :: intent_options where
  "anime_for_gifs =
     \<lparr> io_metadata = Arr [Str ''anime_name'', Str ''artist_name''], io_type = Num (Finite 2) \<rparr>"

definition locked_gifs :: state where
  "locked_gifs = snd (callNekoIntent anime_for_gifs (initial_state example_catalog))"

definition text_metadata :: intent_options where
  "text_metadata = \<lparr> io_metadata = Str ''yes'', io_type = Undefined \<rparr>"

definition empty_text_metadata :: intent_options where
  "empty_text_metadata = \<lparr> io_metadata = Str [], io_type = Undefined \<rparr>"

definition TAB :: string where
  "TAB = [CHR 0x09]"

definition NBSP :: string where
  "NBSP = [CHR 0xC2, CHR 0xA0]"

definition padded_entries :: "padded_entry list" where
  "padded_entries =
     [(['' '', '' ''], ''anime_name'', [TAB]),
      ([NBSP], [], []),
      ([], [], [])]"

definition blank_only_entries :: "padded_entry list" where
  "blank_only_entries = [([NBSP], [], ['' '', TAB]), ([], [], [])]"

definition five_items :: neko_options where
  "five_items = no_options\<lparr> o_amount := Num (Finite 5) \<rparr>"




definition bare_params :: params where
  "bare_params = \<lparr> p_amount = 1, p_actions = VALID_ACTIONS, p_search = [], p_type = BOTH,
                    p_mode = RANDOM, p_dupe = False \<rparr>"

definition five_params :: params where
  "five_params = \<lparr> p_amount = 5, p_actions = VALID_ACTIONS, p_search = [], p_type = BOTH,
                    p_mode = RANDOM, p_dupe = False \<rparr>"

definition rng_late :: rng where
  "rng_late = \<lparr> gen = (\<lambda>k. if k < 53 then 0 else 1), pos = 0 \<rparr>"

definition three_items :: neko_options where
  "three_items = no_options\<lparr> o_amount := Num (Finite 3) \<rparr>"

definition three_params :: params where
  "three_params = \<lparr> p_amount = 3, p_actions = VALID_ACTIONS, p_search = [], p_type = BOTH,
                     p_mode = RANDOM, p_dupe = False \<rparr>"


definition example_pools :: "(string \<times> item list) list" where
  "example_pools = [(''hug'', [hug1, hug2]), (''waifu'', [waifu1, waifu2])]"

section \<open>The intent gate locks once\<close>

lemma callNekoIntent_locked:
  "intentLocked s \<Longrightarrow> callNekoIntent options s = (Inl IntentAlreadyConfigured, s)"
  by (simp add: callNekoIntent_def)

lemma callNekoIntent_seq_locked:
  "intentLocked s \<Longrightarrow>
   callNekoIntent_seq calls s = (replicate (length calls) (Inl IntentAlreadyConfigured), s)"
  by (induction calls) (simp_all add: callNekoIntent_locked)

lemma callNekoIntent_success_locks:
  "callNekoIntent options s = (Inr (), s') \<Longrightarrow> \<not> intentLocked s \<and> intentLocked s'"
  unfolding callNekoIntent_def Let_def
  by (auto split: if_splits sum.splits option.splits)

lemma callNekoIntent_transition:
  "snd (callNekoIntent options s) = s \<or>
   (\<not> intentLocked s \<and> intentLocked (snd (callNekoIntent options s)))"
proof (cases "intentLocked s")
  case True
  then show ?thesis by (simp add: callNekoIntent_locked)
next
  case False
  show ?thesis
  proof (cases "intent_metadata (io_metadata options)
                  (normalizeType (default_to (Num (Finite 3)) (io_type options)))")
    case (Inl e)
    with False have "callNekoIntent options s = (Inl e, s)"
      by (simp add: callNekoIntent_def Let_def)
    then show ?thesis by simp
  next
    case (Inr m)
    with False have "intentLocked (snd (callNekoIntent options s))"
      by (simp add: callNekoIntent_def Let_def split: option.splits)
    with False show ?thesis by simp
  qed
qed

text \<open>
  C1. Once a \<open>callNekoIntent\<close> call has succeeded the gate is locked, and every later
  call, whatever its options and however many follow, fails with the "already
  configured" error (a ConfigurationError) and leaves the whole module state (the lock,
  \<open>intentConfig\<close> with its active flag, metadata, type and allowed categories, and
  both catalog variables) exactly as it was. A single call either leaves the state
  unchanged or takes it from unlocked to locked.
\<close>

theorem intent_locks_exactly_once:
  "(callNekoIntent first s = (Inr (), s') \<longrightarrow>
      \<not> intentLocked s \<and> intentLocked s' \<and>
      callNekoIntent again s' = (Inl IntentAlreadyConfigured, s') \<and>
      callNekoIntent_seq later s' =
        (replicate (length later) (Inl IntentAlreadyConfigured), s')) \<and>
   (intentLocked s \<longrightarrow> callNekoIntent again s = (Inl IntentAlreadyConfigured, s)) \<and>
   error_class_of IntentAlreadyConfigured = ConfigurationError \<and>
   (snd (callNekoIntent first s) = s \<or>
      (\<not> intentLocked s \<and> intentLocked (snd (callNekoIntent first s))))"
  using callNekoIntent_success_locks [of first s s'] callNekoIntent_transition [of first s]
  by (simp add: callNekoIntent_locked callNekoIntent_seq_locked)

lemma example_intent_succeeds:
  "fst (callNekoIntent images_no_metadata (initial_state example_catalog)) = Inr ()"
  by (simp add: callNekoIntent_def images_no_metadata_def initial_state_def intent_metadata_def
        Let_def)

theorem intent_locks_exactly_once_witness:
  "callNekoIntent images_no_metadata (initial_state example_catalog) = (Inr (), locked_images) \<and>
   \<not> intentLocked (initial_state example_catalog) \<and>
   intentLocked locked_images \<and>
   callNekoIntent gifs_all_metadata locked_images = (Inl IntentAlreadyConfigured, locked_images) \<and>
   callNekoIntent_seq [gifs_all_metadata, images_no_metadata] locked_images =
     ([Inl IntentAlreadyConfigured, Inl IntentAlreadyConfigured], locked_images)"
proof -
  have first: "callNekoIntent images_no_metadata (initial_state example_catalog)
                 = (Inr (), locked_images)"
    using example_intent_succeeds by (simp add: locked_images_def prod_eq_iff)
  show ?thesis
    using first
      intent_locks_exactly_once [of images_no_metadata "initial_state example_catalog"
        locked_images gifs_all_metadata "[gifs_all_metadata, images_no_metadata]"]
    by (simp del: callNekoIntent_seq.simps)
qed

section \<open>The per-category sampling primitive\<close>

lemma action_of_createResponseObject:
  "action_of (createResponseObject s it category) = Some (Str category)"
  by (simp add: action_of_def createResponseObject_def Let_def)

lemma url_of_createResponseObject:
  "url_of (createResponseObject s it category) = Some (Str (constructFullUrl (url it)))"
  by (simp add: url_of_def createResponseObject_def Let_def)

lemma duplicates_loop_length:
  "length (fst (duplicates_loop s items category count i result g)) = length result + (count - i)"
proof (induction s items category count i result g rule: duplicates_loop.induct)
  case (1 s items category count i result g)
  show ?case
  proof (cases "i < count")
    case True
    obtain k g' where d: "random_index (length items) g = (k, g')" by (cases "random_index (length items) g")
    from True d "1.IH" [OF True d [symmetric]] show ?thesis
      by (subst duplicates_loop.simps) simp
  next
    case False
    then show ?thesis by (subst duplicates_loop.simps) simp
  qed
qed

lemma shuffle_loop_length:
  "length (fst (shuffle_loop s items category actualCount i indices result g))
     = length result + (actualCount - i)"
proof (induction s items category actualCount i indices result g rule: shuffle_loop.induct)
  case (1 s items category actualCount i indices result g)
  show ?case
  proof (cases "i < actualCount")
    case True
    obtain r g' where d: "random_index (length items - i) g = (r, g')"
      by (cases "random_index (length items - i) g")
    from True d "1.IH" [OF True d [symmetric] refl refl] show ?thesis
      by (subst shuffle_loop.simps) (simp add: Let_def)
  next
    case False
    then show ?thesis by (subst shuffle_loop.simps) simp
  qed
qed

lemma getRandomItems_length:
  "length (fst (getRandomItems s items count category allowDuplicates g)) =
     (if items = [] then 0 else if allowDuplicates then count else min count (length items))"
  by (simp add: getRandomItems_def Let_def duplicates_loop_length shuffle_loop_length)

lemma duplicates_loop_actions:
  "map action_of (fst (duplicates_loop s items category count i result g))
     = map action_of result @ replicate (count - i) (Some (Str category))"
proof (induction s items category count i result g rule: duplicates_loop.induct)
  case (1 s items category count i result g)
  show ?case
  proof (cases "i < count")
    case True
    obtain k g' where d: "random_index (length items) g = (k, g')"
      by (cases "random_index (length items) g")
    from True have "count - i = Suc (count - (i + 1))" by simp
    with True d "1.IH" [OF True d [symmetric]] show ?thesis
      by (subst duplicates_loop.simps)
         (simp add: action_of_createResponseObject replicate_app_Cons_same)
  next
    case False
    then show ?thesis by (subst duplicates_loop.simps) simp
  qed
qed

lemma shuffle_loop_actions:
  "map action_of (fst (shuffle_loop s items category actualCount i indices result g))
     = map action_of result @ replicate (actualCount - i) (Some (Str category))"
proof (induction s items category actualCount i indices result g rule: shuffle_loop.induct)
  case (1 s items category actualCount i indices result g)
  show ?case
  proof (cases "i < actualCount")
    case True
    obtain r g' where d: "random_index (length items - i) g = (r, g')"
      by (cases "random_index (length items - i) g")
    from True have "actualCount - i = Suc (actualCount - (i + 1))" by simp
    with True d "1.IH" [OF True d [symmetric] refl refl] show ?thesis
      by (subst shuffle_loop.simps)
         (simp add: Let_def action_of_createResponseObject replicate_app_Cons_same)
  next
    case False
    then show ?thesis by (subst shuffle_loop.simps) simp
  qed
qed

lemma getRandomItems_actions:
  "map action_of (fst (getRandomItems s items count category allowDuplicates g)) =
     replicate (if items = [] then 0 else if allowDuplicates then count else min count (length items))
       (Some (Str category))"
  by (simp add: getRandomItems_def Let_def duplicates_loop_actions shuffle_loop_actions
        action_of_createResponseObject map_replicate_const comp_def)

section \<open>Search-filtered pools\<close>

lemma set_update_subset: "set (AList.update k v al) \<subseteq> insert (k, v) (set al)"
  by (induction al) auto

lemma update_pools_nonempty:
  "\<forall>e\<in>set acc. snd e \<noteq> [] \<Longrightarrow> v \<noteq> [] \<Longrightarrow> \<forall>e\<in>set (AList.update k v acc). snd e \<noteq> []"
  using set_update_subset [of k v acc] by auto

lemma buildSearchFilteredCategories_nonempty_aux:
  "\<forall>e\<in>set acc. snd e \<noteq> [] \<Longrightarrow>
   \<forall>e\<in>set (foldl (\<lambda>filteredMap category.
              case gifsData s category of
                None \<Rightarrow> filteredMap
              | Some categoryItems \<Rightarrow>
                  let filtered = filter (\<lambda>it. matchesSearch lower it category searchTerms) categoryItems
                  in if length filtered > 0 then AList.update category filtered filteredMap
                     else filteredMap) acc categories). snd e \<noteq> []"
proof (induction categories arbitrary: acc)
  case Nil
  then show ?case by simp
next
  case (Cons c cs)
  show ?case
    apply (simp only: foldl_Cons)
    apply (rule Cons.IH)
    using Cons.prems
    apply (cases "gifsData s c")
     apply simp
    apply (simp add: Let_def del: length_greater_0_conv)
    apply (intro impI update_pools_nonempty)
     apply simp_all
    done
qed

lemma pools_nonempty:
  "\<forall>e\<in>set (buildSearchFilteredCategories lower s categories searchTerms). snd e \<noteq> []"
  unfolding buildSearchFilteredCategories_def
  by (rule buildSearchFilteredCategories_nonempty_aux) simp

section \<open>Distributed mode\<close>

lemma distributed_loop_draw_each:
  "distributed_loop s baseAmount remainder allowDup fm index result g =
     (case draw_each s allowDup
             (zip fm (map (\<lambda>j. if index + j < remainder then baseAmount + 1 else baseAmount)
                        [0..<length fm])) g of
        (others, g') \<Rightarrow> (result @ others, g'))"
proof (induction fm arbitrary: index result g)
  case Nil
  then show ?case by simp
next
  case (Cons e fm)
  obtain cat pool where e: "e = (cat, pool)" by (cases e)
  have step: "zip (e # fm) (map (\<lambda>j. if index + j < remainder then baseAmount + 1 else baseAmount)
                              [0..<length (e # fm)])
                = (e, if index < remainder then baseAmount + 1 else baseAmount)
                  # zip fm (map (\<lambda>j. if Suc index + j < remainder then baseAmount + 1 else baseAmount)
                              [0..<length fm])"
    by (simp add: map_upt_Suc del: upt_Suc)
  show ?case
    by (simp only: step) (simp add: e Cons.IH split: prod.splits del: upt_Suc)
qed

lemma shares_sum:
  "sum_list (map (\<lambda>index. if index < r then b + 1 else b) [0..<n]) = n * b + min r n"
  by (induction n) auto

lemma sum_shares: "0 < n \<Longrightarrow> sum_list (distributed_shares amount n) = amount"
  by (simp add: distributed_shares_def shares_sum min_def)

lemma draw_each_length:
  "length (fst (draw_each s allowDup ps g)) = sum_list (map (contribution allowDup) ps)"
proof (induction ps arbitrary: g)
  case Nil
  then show ?case by simp
next
  case (Cons e ps)
  obtain cat pool k where e: "e = ((cat, pool), k)" by (cases e) auto
  obtain its g' where d: "getRandomItems s pool k cat allowDup g = (its, g')"
    by (cases "getRandomItems s pool k cat allowDup g")
  have "length its = contribution allowDup e"
    using getRandomItems_length [of s pool k cat allowDup g] d
    by (simp add: contribution_def e)
  with d Cons.IH [of g'] show ?case
    by (cases "draw_each s allowDup ps g'") (simp add: e)
qed

lemma draw_each_actions:
  "map action_of (fst (draw_each s allowDup ps g))
     = concat (map (\<lambda>e. replicate (contribution allowDup e) (Some (Str (fst (fst e))))) ps)"
proof (induction ps arbitrary: g)
  case Nil
  then show ?case by simp
next
  case (Cons e ps)
  obtain cat pool k where e: "e = ((cat, pool), k)" by (cases e) auto
  obtain its g' where d: "getRandomItems s pool k cat allowDup g = (its, g')"
    by (cases "getRandomItems s pool k cat allowDup g")
  have "map action_of its = replicate (contribution allowDup e) (Some (Str cat))"
    using getRandomItems_actions [of s pool k cat allowDup g] d
    by (simp add: contribution_def e)
  with d Cons.IH [of g'] show ?case
    by (cases "draw_each s allowDup ps g'") (simp add: e)
qed

lemma contribution_le: "contribution allowDup e \<le> snd e"
  by (cases e) (auto simp: contribution_def)

lemma contributions_le_shares:
  "sum_list (map (contribution allowDup) ps) \<le> sum_list (map snd ps)"
  by (induction ps) (simp_all add: add_mono contribution_le)

lemma contributions_short:
  "sum_list (map (contribution allowDup) ps) < sum_list (map snd ps) \<Longrightarrow>
   \<exists>e\<in>set ps. contribution allowDup e < snd e"
proof (induction ps)
  case Nil
  then show ?case by simp
next
  case (Cons e ps)
  show ?case
  proof (cases "contribution allowDup e < snd e")
    case True
    then show ?thesis by simp
  next
    case False
    with contribution_le [of allowDup e] have "contribution allowDup e = snd e" by simp
    with Cons show ?thesis by simp
  qed
qed

section \<open>Random mode without duplicates\<close>

lemma urls_tracked_add:
  "urls_tracked result usedUrls \<Longrightarrow> constructFullUrl (url it) \<notin> set usedUrls \<Longrightarrow>
   urls_tracked (result @ [createResponseObject s it category])
     (List.insert (constructFullUrl (url it)) usedUrls)"
  by (auto simp: urls_tracked_def url_of_createResponseObject)

lemma random_index_pos: "pos (snd (random_index n g)) = Suc (pos g)"
  by (simp add: random_index_def)

lemma retry_loop_invariant:
  "urls_tracked result usedUrls \<Longrightarrow>
   retry_loop s category items attempts foundUnique result usedUrls g = (found', result', usedUrls', g') \<Longrightarrow>
   urls_tracked result' usedUrls' \<and>
   (if foundUnique then result' = result \<and> found'
    else if found' then length result' = Suc (length result)
    else result' = result) \<and>
   pos g \<le> pos g' \<and> pos g' \<le> pos g + (MAX_RETRY_ATTEMPTS - attempts)"
proof (induction s category items attempts foundUnique result usedUrls g
       rule: retry_loop.induct)
  case (1 s category items attempts foundUnique result usedUrls g)
  show ?case
  proof (cases "attempts < MAX_RETRY_ATTEMPTS \<and> \<not> foundUnique")
    case False
    with "1.prems" show ?thesis
      by (subst (asm) retry_loop.simps) auto
  next
    case True
    obtain k g1 where d: "random_index (length items) g = (k, g1)"
      by (cases "random_index (length items) g")
    from d have g1: "pos g1 = Suc (pos g)"
      using random_index_pos [of "length items" g] by simp
    let ?u = "constructFullUrl (url (items ! k))"
    show ?thesis
    proof (cases "?u \<in> set usedUrls")
      case False
      from "1.prems"(2) True d False
      have run: "retry_loop s category items (attempts + 1) True
                   (result @ [createResponseObject s (items ! k) category])
                   (List.insert ?u usedUrls) g1 = (found', result', usedUrls', g')"
        by (subst (asm) retry_loop.simps) (simp add: Let_def)
      from "1.IH"(1) [OF True d [symmetric] refl refl False
                        urls_tracked_add [OF "1.prems"(1) False] run]
      show ?thesis using True g1 by auto
    next
      case inside: True
      from "1.prems"(2) True d inside
      have run: "retry_loop s category items (attempts + 1) foundUnique result usedUrls g1
                   = (found', result', usedUrls', g')"
        by (subst (asm) retry_loop.simps) (simp add: Let_def)
      from "1.IH"(2) [OF True d [symmetric] refl refl _ "1.prems"(1) run] inside
      show ?thesis using True g1 by auto
    qed
  qed
qed

lemma budget_step:
  "i < amount \<Longrightarrow> (amount - i) * (1 + m) = (1 + m) + (amount - (i + 1)) * (1 + (m::nat))"
proof -
  assume "i < amount"
  then have eq: "amount - i = Suc (amount - (i + 1))" by simp
  have "Suc (amount - (i + 1)) * (1 + m) = (1 + m) + (amount - (i + 1)) * (1 + m)"
    by simp
  then show ?thesis by (simp only: eq)
qed

lemma random_loop_unique:
  "urls_tracked result usedUrls \<Longrightarrow>
   random_loop s amount fm False i result usedUrls g = (result', g') \<Longrightarrow>
   distinct (map url_of result') \<and>
   length result' \<le> length result + (amount - i) \<and>
   pos g' \<le> pos g + (amount - i) * (1 + MAX_RETRY_ATTEMPTS)"
proof (induction s amount fm "False" i result usedUrls g rule: random_loop.induct)
  case (1 s amount fm i result usedUrls g)
  show ?case
  proof (cases "i < amount")
    case False
    with "1.prems" show ?thesis
      by (subst (asm) random_loop.simps) (auto simp: urls_tracked_def)
  next
    case True
    obtain c g1 where d: "random_index (length fm) g = (c, g1)"
      by (cases "random_index (length fm) g")
    from d have g1: "pos g1 = Suc (pos g)"
      using random_index_pos [of "length fm" g] by simp
    obtain cat pool where e: "fm ! c = (cat, pool)" by (cases "fm ! c")
    obtain found r1 u1 g2 where
      retry: "retry_loop s cat pool 0 False result usedUrls g1 = (found, r1, u1, g2)"
      by (cases "retry_loop s cat pool 0 False result usedUrls g1") auto
    from retry_loop_invariant [OF "1.prems"(1) retry]
    have tracked: "urls_tracked r1 u1"
      and len: "if found then length r1 = Suc (length result) else r1 = result"
      and g2: "pos g2 \<le> pos g1 + MAX_RETRY_ATTEMPTS"
      by auto
    show ?thesis
    proof (cases found)
      case False
      with "1.prems"(2) True d e retry have "result' = r1" "g' = g2"
        by (subst (asm) random_loop.simps; simp)+
      with tracked len False g1 g2 budget_step [OF True, of MAX_RETRY_ATTEMPTS] show ?thesis
        by (auto simp: urls_tracked_def)
    next
      case found: True
      with "1.prems"(2) True d e retry
      have run: "random_loop s amount fm False (i + 1) r1 u1 g2 = (result', g')"
        by (subst (asm) random_loop.simps) simp
      from "1.hyps"(2) [OF True d [symmetric] e [symmetric] _ retry [symmetric] refl refl _ tracked run]
        found
      have "distinct (map url_of result')"
        and "length result' \<le> length r1 + (amount - (i + 1))"
        and "pos g' \<le> pos g2 + (amount - (i + 1)) * (1 + MAX_RETRY_ATTEMPTS)"
        by auto
      then show ?thesis
        using len found g1 g2 True budget_step [OF True, of MAX_RETRY_ATTEMPTS] by auto
    qed
  qed
qed

lemma selectRandomMode_several:
  assumes "1 < length (buildSearchFilteredCategories lower s categories searchTerms)"
  shows "length (fst (selectRandomMode lower s amount categories searchTerms False g)) \<le> amount \<and>
         distinct (map url_of (fst (selectRandomMode lower s amount categories searchTerms False g))) \<and>
         pos (snd (selectRandomMode lower s amount categories searchTerms False g))
           \<le> pos g + amount * (1 + MAX_RETRY_ATTEMPTS)"
proof -
  let ?fm = "buildSearchFilteredCategories lower s categories searchTerms"
  obtain result g' where run: "random_loop s amount ?fm False 0 [] [] g = (result, g')"
    by (cases "random_loop s amount ?fm False 0 [] [] g")
  have "urls_tracked [] []" by (simp add: urls_tracked_def)
  from random_loop_unique [OF this run] assms run show ?thesis
    by (simp add: selectRandomMode_def Let_def)
qed

lemma items_of_wrap:
  "items_of (if c \<and> length result = Suc 0 then Single (result ! 0) else Many result) = result"
  by (cases result) auto

lemma find_map_list: "List.find P (map f xs) = map_option f (List.find (\<lambda>x. P (f x)) xs)"
  by (induction xs) simp_all

lemma find_upt_Suc:
  "List.find P [0..<Suc m] = (if P 0 then Some 0 else map_option Suc (List.find (\<lambda>k. P (Suc k)) [0..<m]))"
proof -
  have "[0..<Suc m] = 0 # map Suc [0..<m]"
    by (simp add: upt_conv_Cons map_Suc_upt del: upt_Suc)
  then show ?thesis
    by (simp add: find_map_list del: upt_Suc)
qed

lemma retry_loop_found:
  "retry_loop s cat pool attempts True result usedUrls g = (True, result, usedUrls, g)"
  by (subst retry_loop.simps) simp

lemma retry_loop_find:
  "attempts + m = MAX_RETRY_ATTEMPTS \<Longrightarrow>
   retry_loop s cat pool attempts False result usedUrls g =
     (case List.find (\<lambda>k. constructFullUrl (url (attempt_item pool g k)) \<notin> set usedUrls) [0..<m] of
        None \<Rightarrow> (False, result, usedUrls, g\<lparr> pos := pos g + m \<rparr>)
      | Some k \<Rightarrow>
          (True, result @ [createResponseObject s (attempt_item pool g k) cat],
           List.insert (constructFullUrl (url (attempt_item pool g k))) usedUrls,
           g\<lparr> pos := pos g + (k + 1) \<rparr>))"
proof (induction m arbitrary: attempts g)
  case 0
  then show ?case by (subst retry_loop.simps) simp
next
  case (Suc m)
  let ?g' = "g\<lparr> pos := Suc (pos g) \<rparr>"
  from Suc.prems have lt: "attempts < MAX_RETRY_ATTEMPTS" and step: "(attempts + 1) + m = MAX_RETRY_ATTEMPTS"
    by simp_all
  have shift: "\<And>k. attempt_item pool ?g' k = attempt_item pool g (Suc k)"
    by (simp add: attempt_item_def)
  have first: "pool ! (gen g (pos g) mod length pool) = attempt_item pool g 0"
    by (simp add: attempt_item_def)
  show ?case
  proof (cases "constructFullUrl (url (attempt_item pool g 0)) \<in> set usedUrls")
    case False
    with lt first show ?thesis
      by (subst retry_loop.simps)
         (simp add: random_index_def Let_def retry_loop_found find_upt_Suc del: upt_Suc)
  next
    case True
    with lt first Suc.IH [OF step, of ?g'] show ?thesis
      by (subst retry_loop.simps)
         (simp add: random_index_def Let_def find_upt_Suc shift del: upt_Suc split: option.splits)
  qed
qed

lemma retry_loop_fresh_attempt:
  "retry_loop s cat pool 0 False result usedUrls g =
     (case fresh_attempt pool usedUrls g of
        None \<Rightarrow> (False, result, usedUrls, g\<lparr> pos := pos g + MAX_RETRY_ATTEMPTS \<rparr>)
      | Some k \<Rightarrow>
          (True, result @ [createResponseObject s (attempt_item pool g k) cat],
           List.insert (constructFullUrl (url (attempt_item pool g k))) usedUrls,
           g\<lparr> pos := pos g + (k + 1) \<rparr>))"
  using retry_loop_find [of 0 MAX_RETRY_ATTEMPTS] by (simp add: fresh_attempt_def)

lemma random_loop_unique_draws:
  "random_loop s amount fm False i result usedUrls g
     = unique_draws s fm (amount - i) result usedUrls g"
proof (induction s amount fm "False" i result usedUrls g rule: random_loop.induct)
  case (1 s amount fm i result usedUrls g)
  show ?case
  proof (cases "i < amount")
    case False
    then show ?thesis by (subst random_loop.simps) simp
  next
    case True
    then have rest: "amount - i = Suc (amount - (i + 1))" by simp
    let ?g1 = "g\<lparr> pos := Suc (pos g) \<rparr>"
    obtain cat pool where e: "fm ! (gen g (pos g) mod length fm) = (cat, pool)"
      by (cases "fm ! (gen g (pos g) mod length fm)")
    have d: "random_index (length fm) g = (gen g (pos g) mod length fm, ?g1)"
      by (simp add: random_index_def)
    show ?thesis
    proof (cases "fresh_attempt pool usedUrls ?g1")
      case None
      with True d e show ?thesis
        by (subst random_loop.simps) (simp add: rest retry_loop_fresh_attempt)
    next
      case (Some k)
      let ?it = "attempt_item pool ?g1 k"
      have retry: "retry_loop s cat pool 0 False result usedUrls ?g1
                     = (True, result @ [createResponseObject s ?it cat],
                        List.insert (constructFullUrl (url ?it)) usedUrls,
                        ?g1\<lparr> pos := pos ?g1 + (k + 1) \<rparr>)"
        using Some by (simp add: retry_loop_fresh_attempt)
      from "1.hyps"(2) [OF True d [symmetric] e [symmetric] _ retry [symmetric] refl refl]
      have "random_loop s amount fm False (i + 1) (result @ [createResponseObject s ?it cat])
              (List.insert (constructFullUrl (url ?it)) usedUrls) (?g1\<lparr> pos := pos ?g1 + (k + 1) \<rparr>)
            = unique_draws s fm (amount - (i + 1)) (result @ [createResponseObject s ?it cat])
              (List.insert (constructFullUrl (url ?it)) usedUrls) (?g1\<lparr> pos := pos ?g1 + (k + 1) \<rparr>)"
        by simp
      with True d e retry Some show ?thesis
        by (subst random_loop.simps) (simp add: rest)
    qed
  qed
qed

lemma random_loop_stops:
  assumes "i < amount"
    and "\<forall>k<MAX_RETRY_ATTEMPTS.
           constructFullUrl (url (attempt_item (snd (fm ! (gen h (pos h) mod length fm)))
                                   (h\<lparr> pos := pos h + 1 \<rparr>) k)) \<in> set usedUrls"
  shows "random_loop s amount fm False i result usedUrls h
           = (result, h\<lparr> pos := pos h + 1 + MAX_RETRY_ATTEMPTS \<rparr>)"
proof -
  from assms(1) have rest: "amount - i = Suc (amount - (i + 1))" by simp
  obtain cat pool where e: "fm ! (gen h (pos h) mod length fm) = (cat, pool)"
    by (cases "fm ! (gen h (pos h) mod length fm)")
  with assms(2) have "fresh_attempt pool usedUrls (h\<lparr> pos := pos h + 1 \<rparr>) = None"
    by (simp add: fresh_attempt_def find_None_iff)
  with e show ?thesis
    by (simp add: random_loop_unique_draws rest)
qed

section \<open>Request normalisation\<close>




lemma parseOptions_no_amount:
  "o_amount options = Undefined \<Longrightarrow> parseOptions s options = Inr p \<Longrightarrow> p_amount p = 1"
  by (auto simp: parseOptions_def Let_def default_to_def split: sum.splits if_splits)

lemma normalizeType_Undefined: "normalizeType Undefined = BOTH"
  by (simp add: normalizeType_def)

lemma normalizeMode_Undefined: "normalizeMode Undefined = RANDOM"
  by (simp add: normalizeMode_def)

lemma parseOptions_bare:
  "parseOptions s no_options =
     (if default_actions s = [] then Inl (NoCategoriesMatch BOTH)
      else Inr \<lparr> p_amount = 1, p_actions = default_actions s, p_search = [], p_type = BOTH,
                 p_mode = RANDOM, p_dupe = False \<rparr>)"
  by (simp add: parseOptions_def no_options_def default_to_def normalizeActions_def
        normalizeSearch_def normalizeType_Undefined normalizeMode_Undefined
        validateAndFilterCategories_def matchesContentType_def default_actions_def Let_def)




section \<open>Metadata of the intent\<close>

lemma white_space_nonempty: "w \<in> set WHITE_SPACE \<Longrightarrow> w \<noteq> []"
  by (auto simp: WHITE_SPACE_def)

lemma white_space_prefix_free:
  "list_all (\<lambda>w. list_all (\<lambda>w'. prefix w w' \<longrightarrow> w = w') WHITE_SPACE) WHITE_SPACE"
  by code_simp

lemma white_space_suffix_free:
  "list_all (\<lambda>w. list_all (\<lambda>w'. prefix (rev w) (rev w') \<longrightarrow> w = w') WHITE_SPACE) WHITE_SPACE"
  by code_simp

lemma white_space_no_straddle:
  "list_all (\<lambda>w. list_all (\<lambda>w'. hd w' \<notin> set (tl w)) WHITE_SPACE) WHITE_SPACE"
  by code_simp


lemma strip_front_none:
  "\<forall>w\<in>set seqs. w \<noteq> [] \<longrightarrow> \<not> prefix w x \<Longrightarrow> strip_front seqs x = x"
proof -
  assume "\<forall>w\<in>set seqs. w \<noteq> [] \<longrightarrow> \<not> prefix w x"
  then have "List.find (\<lambda>w. w \<noteq> [] \<and> prefix w x) seqs = None"
    by (auto simp: find_None_iff)
  then show ?thesis by (subst strip_front.simps) simp
qed

lemma strip_front_step:
  assumes "w \<in> set seqs" and "w \<noteq> []"
    and free: "\<forall>u\<in>set seqs. \<forall>v\<in>set seqs. prefix u v \<longrightarrow> u = v"
  shows "strip_front seqs (w @ x) = strip_front seqs x"
proof -
  from assms(1,2) have "List.find (\<lambda>u. u \<noteq> [] \<and> prefix u (w @ x)) seqs \<noteq> None"
    by (auto simp: find_None_iff)
  then obtain u where u: "List.find (\<lambda>u. u \<noteq> [] \<and> prefix u (w @ x)) seqs = Some u"
    by auto
  then have "u \<in> set seqs" and "prefix u (w @ x)"
    by (auto simp: find_Some_iff)
  moreover have "prefix w (w @ x)" by simp
  ultimately have "prefix u w \<or> prefix w u"
    using prefix_same_cases by blast
  with free \<open>u \<in> set seqs\<close> assms(1) have "u = w" by blast
  with u show ?thesis by (subst strip_front.simps) simp
qed

lemma strip_front_concat:
  assumes "set ws \<subseteq> set seqs" and "\<forall>u\<in>set seqs. u \<noteq> []"
    and free: "\<forall>u\<in>set seqs. \<forall>v\<in>set seqs. prefix u v \<longrightarrow> u = v"
  shows "strip_front seqs (concat ws @ x) = strip_front seqs x"
  using assms(1)
proof (induction ws)
  case Nil
  then show ?case by simp
next
  case (Cons w ws)
  then have "w \<in> set seqs" by simp
  with assms(2) have "w \<noteq> []" by blast
  from strip_front_step [OF \<open>w \<in> set seqs\<close> this free, of "concat ws @ x"] Cons
  show ?case by simp
qed

lemma strip_front_no_prefix:
  "w \<in> set seqs \<Longrightarrow> w \<noteq> [] \<Longrightarrow> \<not> prefix w (strip_front seqs x)"
proof (induction seqs x rule: strip_front.induct)
  case (1 seqs x)
  show ?case
  proof (cases "List.find (\<lambda>w. w \<noteq> [] \<and> prefix w x) seqs")
    case None
    with "1.prems" have "\<not> prefix w x" by (auto simp: find_None_iff)
    with None show ?thesis by (subst strip_front.simps) simp
  next
    case (Some u)
    with "1.IH" [OF Some "1.prems"] show ?thesis by (subst strip_front.simps) simp
  qed
qed

lemma strip_front_suffix: "suffix (strip_front seqs x) x"
proof (induction seqs x rule: strip_front.induct)
  case (1 seqs x)
  show ?case
  proof (cases "List.find (\<lambda>w. w \<noteq> [] \<and> prefix w x) seqs")
    case None
    then show ?thesis by (subst strip_front.simps) simp
  next
    case (Some u)
    from "1.IH" [OF Some] have "suffix (strip_front seqs (drop (length u) x)) x"
      using suffix_drop suffix_order.trans by blast
    with Some show ?thesis by (subst strip_front.simps) simp
  qed
qed

lemma white_space_free:
  "\<forall>u\<in>set WHITE_SPACE. \<forall>v\<in>set WHITE_SPACE. prefix u v \<longrightarrow> u = v"
  using white_space_prefix_free by (simp add: list_all_iff)

lemma white_space_rev_free:
  "\<forall>u\<in>set (map rev WHITE_SPACE). \<forall>v\<in>set (map rev WHITE_SPACE). prefix u v \<longrightarrow> u = v"
  using white_space_suffix_free by (auto simp: list_all_iff)

lemma white_space_rev_nonempty: "\<forall>u\<in>set (map rev WHITE_SPACE). u \<noteq> []"
  by (auto simp: white_space_nonempty)

lemma clean_no_straddle:
  assumes "clean core" and "set b \<subseteq> set WHITE_SPACE" and "w \<in> set WHITE_SPACE"
  shows "\<not> prefix w (core @ concat b)"
proof
  assume "prefix w (core @ concat b)"
  then have "prefix w core \<or> (\<exists>v. w = core @ v \<and> prefix v (concat b))"
    by (simp add: prefix_append)
  then have "prefix w core \<or> (\<exists>v. w = core @ v \<and> v \<noteq> [] \<and> prefix v (concat b))"
    by (metis append_Nil2 prefix_order.refl)
  then consider "prefix w core" | v where "w = core @ v" "v \<noteq> []" "prefix v (concat b)"
    by blast
  then show False
  proof cases
    case 1
    with assms(1,3) show False by (auto simp: clean_def list_all_iff)
  next
    case 2
    from assms(1) have "core \<noteq> []" by (simp add: clean_def)
    with 2 have in_tl: "hd v \<in> set (tl w)" by (cases core) auto
    from 2 have "concat b \<noteq> []" by (metis prefix_Nil)
    with assms(2) obtain w' rest where "w' \<in> set WHITE_SPACE" "concat b = w' @ rest" "w' \<noteq> []"
    proof (induction b)
      case Nil
      then show ?case by simp
    next
      case (Cons e b)
      show ?case
      proof (cases "e = []")
        case True
        with Cons.prems(2) white_space_nonempty [of e] show ?thesis by simp
      next
        case False
        with Cons.prems show ?thesis by auto
      qed
    qed
    with 2 have "hd v = hd w'" by (cases v; cases w') (auto simp: prefix_def)
    with in_tl \<open>w' \<in> set WHITE_SPACE\<close> assms(3) white_space_no_straddle
    show False by (auto simp: list_all_iff)
  qed
qed

lemma trim_padded:
  assumes "set a \<subseteq> set WHITE_SPACE" and "set b \<subseteq> set WHITE_SPACE" and "clean core"
  shows "trim (concat a @ core @ concat b) = core"
proof -
  have front: "strip_front WHITE_SPACE (concat a @ core @ concat b) = core @ concat b"
    using strip_front_concat [OF assms(1) _ white_space_free, of "core @ concat b"]
      strip_front_none [of WHITE_SPACE "core @ concat b"] clean_no_straddle [OF assms(3,2)]
    by (auto simp: white_space_nonempty)
  have b: "set (map rev (rev b)) \<subseteq> set (map rev WHITE_SPACE)"
    using assms(2) by auto
  have "rev (core @ concat b) = concat (map rev (rev b)) @ rev core"
    by (simp add: rev_concat)
  moreover have "strip_front (map rev WHITE_SPACE) (rev core) = rev core"
    using assms(3) by (intro strip_front_none) (auto simp: clean_def list_all_iff)
  ultimately have "strip_front (map rev WHITE_SPACE) (rev (core @ concat b)) = rev core"
    using strip_front_concat [OF b white_space_rev_nonempty white_space_rev_free, of "rev core"]
    by simp
  with front show ?thesis by (simp add: trim_def)
qed

lemma trim_blank:
  assumes "set a \<subseteq> set WHITE_SPACE"
  shows "trim (concat a) = []"
proof -
  have "strip_front WHITE_SPACE (concat a @ []) = strip_front WHITE_SPACE []"
    using strip_front_concat [OF assms _ white_space_free, of "[]"]
    by (auto simp: white_space_nonempty)
  then have "strip_front WHITE_SPACE (concat a) = []"
    by (simp add: strip_front_none)
  then show ?thesis by (simp add: trim_def strip_front_none)
qed

lemma trim_idem: "trim (trim x) = trim x"
proof -
  let ?t = "strip_front WHITE_SPACE x"
  let ?r = "strip_front (map rev WHITE_SPACE) (rev ?t)"
  have "suffix ?r (rev ?t)" by (rule strip_front_suffix)
  then have pre: "prefix (rev ?r) ?t" by (simp add: suffix_to_prefix)
  have "\<forall>w\<in>set WHITE_SPACE. w \<noteq> [] \<longrightarrow> \<not> prefix w (rev ?r)"
  proof (intro ballI impI notI)
    fix w assume "w \<in> set WHITE_SPACE" "w \<noteq> []" "prefix w (rev ?r)"
    with pre have "prefix w ?t" by auto
    with strip_front_no_prefix [of w WHITE_SPACE x] \<open>w \<in> set WHITE_SPACE\<close> \<open>w \<noteq> []\<close>
    show False by simp
  qed
  then have front: "strip_front WHITE_SPACE (rev ?r) = rev ?r"
    by (rule strip_front_none)
  have "\<forall>w\<in>set (map rev WHITE_SPACE). w \<noteq> [] \<longrightarrow> \<not> prefix w ?r"
    using strip_front_no_prefix [of _ "map rev WHITE_SPACE" "rev ?t"] by blast
  then have "strip_front (map rev WHITE_SPACE) ?r = ?r"
    by (rule strip_front_none)
  with front show ?thesis by (simp add: trim_def)
qed

lemma trim_entries_strings: "trim_entries (map Str fs) = Some (map trim fs)"
  by (induction fs) simp_all

lemma clean_idem:
  "filter (\<lambda>f. f \<noteq> []) (map trim (filter (\<lambda>f. f \<noteq> []) (map trim fs)))
     = filter (\<lambda>f. f \<noteq> []) (map trim fs)"
  by (induction fs) (simp_all add: trim_idem)

lemma intent_metadata_cleaned:
  "intent_metadata (Arr (map Str fs)) nt =
   intent_metadata (Arr (map Str (filter (\<lambda>f. f \<noteq> []) (map trim fs)))) nt"
  by (simp add: intent_metadata_def trim_entries_strings clean_idem)

lemma intent_metadata_blank:
  assumes "\<forall>f\<in>set fs. trim f = []"
  shows "intent_metadata (Arr (map Str fs)) nt = Inr (Some [])"
proof -
  from assms have "filter (\<lambda>f. f \<noteq> []) (map trim fs) = []"
    by (induction fs) simp_all
  then show ?thesis
    by (simp add: intent_metadata_def trim_entries_strings)
qed

lemma trim_padded_entry:
  assumes "well_padded e"
  shows "trim (padded e) = core_of e"
proof -
  obtain a core b where e: "e = (a, core, b)" by (cases e) auto
  from assms e have a: "set a \<subseteq> set WHITE_SPACE" and b: "set b \<subseteq> set WHITE_SPACE"
    and core: "core = [] \<or> clean core"
    by (auto simp: well_padded_def list_all_iff)
  show ?thesis
  proof (cases "core = []")
    case True
    from a b have "set (a @ b) \<subseteq> set WHITE_SPACE" by simp
    from trim_blank [OF this] True e show ?thesis
      by (simp add: padded_def core_of_def)
  next
    case False
    with core have "clean core" by simp
    from trim_padded [OF a b this] e show ?thesis
      by (simp add: padded_def core_of_def)
  qed
qed

lemma strip_front_decompose:
  "\<exists>ws. set ws \<subseteq> set seqs \<and> x = concat ws @ strip_front seqs x"
proof (induction seqs x rule: strip_front.induct)
  case (1 seqs x)
  show ?case
  proof (cases "List.find (\<lambda>w. w \<noteq> [] \<and> prefix w x) seqs")
    case None
    then have "strip_front seqs x = x" by (subst strip_front.simps) simp
    then have "set [] \<subseteq> set seqs \<and> x = concat [] @ strip_front seqs x" by simp
    then show ?thesis by blast
  next
    case (Some u)
    then have u: "u \<in> set seqs" "prefix u x" by (auto simp: find_Some_iff)
    from "1.IH" [OF Some] obtain ws where
      ws: "set ws \<subseteq> set seqs" "drop (length u) x = concat ws @ strip_front seqs (drop (length u) x)"
      by blast
    from Some have step: "strip_front seqs x = strip_front seqs (drop (length u) x)"
      by (subst strip_front.simps) simp
    from u(2) have "x = u @ drop (length u) x" by (auto simp: prefix_def)
    with ws(2) step have "x = concat (u # ws) @ strip_front seqs x" by simp
    moreover from u(1) ws(1) have "set (u # ws) \<subseteq> set seqs" by simp
    ultimately show ?thesis by blast
  qed
qed

lemma every_string_padded: "\<exists>e. well_padded e \<and> padded e = x"
proof -
  let ?t = "strip_front WHITE_SPACE x"
  let ?r = "strip_front (map rev WHITE_SPACE) (rev ?t)"
  from strip_front_decompose [of WHITE_SPACE x] obtain a where
    a: "set a \<subseteq> set WHITE_SPACE" "x = concat a @ ?t" by blast
  from strip_front_decompose [of "map rev WHITE_SPACE" "rev ?t"] obtain c where
    c: "set c \<subseteq> set (map rev WHITE_SPACE)" "rev ?t = concat c @ ?r" by blast
  let ?b = "map rev (rev c)"
  from c(1) have b: "set ?b \<subseteq> set WHITE_SPACE" by auto
  from c(2) have "?t = rev (concat c @ ?r)" by (metis rev_rev_ident)
  then have t: "?t = trim x @ concat ?b"
    by (simp add: trim_def rev_concat rev_map)
  have "suffix ?r (rev ?t)" by (rule strip_front_suffix)
  then have pre: "prefix (trim x) ?t" by (simp add: suffix_to_prefix trim_def)
  have front: "\<forall>w\<in>set WHITE_SPACE. \<not> prefix w (trim x)"
  proof (intro ballI notI)
    fix w assume w: "w \<in> set WHITE_SPACE" "prefix w (trim x)"
    with pre have "prefix w ?t" by auto
    with strip_front_no_prefix [of w WHITE_SPACE x] w(1) white_space_nonempty [of w]
    show False by simp
  qed
  have rear: "\<forall>w\<in>set WHITE_SPACE. \<not> prefix (rev w) (rev (trim x))"
    using strip_front_no_prefix [of _ "map rev WHITE_SPACE" "rev ?t"] white_space_nonempty
    by (auto simp: trim_def)
  from front rear have "trim x = [] \<or> clean (trim x)"
    by (auto simp: clean_def list_all_iff)
  with a(1) b have "well_padded (a, trim x, ?b)"
    by (auto simp: well_padded_def list_all_iff)
  moreover from a(2) t have "padded (a, trim x, ?b) = x"
    by (simp add: padded_def)
  ultimately show ?thesis by blast
qed

lemma callNekoIntent_unlocked:
  "\<not> intentLocked s \<Longrightarrow> rawGifsData s = Some raw \<Longrightarrow>
   intent_metadata (io_metadata options) (normalizeType (default_to (Num (Finite 3)) (io_type options))) = Inr m \<Longrightarrow>
   fst (callNekoIntent options s) = Inr () \<and>
   metadata (intentConfig (snd (callNekoIntent options s))) =
     (case m of
        None \<Rightarrow> if normalizeType (default_to (Num (Finite 3)) (io_type options)) = IMAGE
                then Some METADATA_FIELDS_IMAGE
                else if normalizeType (default_to (Num (Finite 3)) (io_type options)) = GIF
                then Some METADATA_FIELDS_GIF else None
      | Some fs \<Rightarrow> Some fs)"
  by (simp add: callNekoIntent_def Let_def split: option.splits)

lemma callNekoIntent_metadata_error:
  "\<not> intentLocked s \<Longrightarrow>
   intent_metadata (io_metadata options) (normalizeType (default_to (Num (Finite 3)) (io_type options))) = Inl e \<Longrightarrow>
   callNekoIntent options s = (Inl e, s)"
  by (simp add: callNekoIntent_def Let_def)

lemma intent_metadata_scalar:
  "md \<noteq> Undefined \<Longrightarrow> md \<noteq> Null \<Longrightarrow> md \<noteq> Num (Finite 0) \<Longrightarrow> md \<noteq> Bool False \<Longrightarrow>
   md \<noteq> Num (Finite 1) \<Longrightarrow> md \<noteq> Bool True \<Longrightarrow> (\<forall>vs. md \<noteq> Arr vs) \<Longrightarrow>
   intent_metadata md nt = Inl MetadataShape"
  by (cases md) (simp_all add: intent_metadata_def)

section \<open>Claims about the selection engine\<close>

text \<open>
  C3 (as amended). For a non-empty pool, a count of at least the size of the pool and
  \<open>allowDuplicates = false\<close>, \<open>getRandomItems\<close> returns the response of every item
  of the pool exactly once, in the order in which the pool stores them, draws nothing from
  the source of randomness, and raises no error for a count above the size of the pool.
\<close>

theorem getRandomItems_whole_pool:
  "items \<noteq> [] \<Longrightarrow> length items \<le> count \<Longrightarrow>
   getRandomItems s items count category False g =
     (map (\<lambda>it. createResponseObject s it category) items, g)"
  by (simp add: getRandomItems_def)

text \<open>
  The amended C3 on the two \<open>hug\<close> records with a count of five.
\<close>

theorem getRandomItems_whole_pool_witness:
  "[hug1, hug2] \<noteq> [] \<and> length [hug1, hug2] \<le> 5 \<and>
   getRandomItems (initial_state example_catalog) [hug1, hug2] 5 ''hug'' False rng_ones =
     ([createResponseObject (initial_state example_catalog) hug1 ''hug'',
       createResponseObject (initial_state example_catalog) hug2 ''hug''], rng_ones)"
  using getRandomItems_whole_pool
          [of "[hug1, hug2]" 5 "initial_state example_catalog" "''hug''" rng_ones]
  by simp

text \<open>
  C3 as stated asks for a randomised order. With a count equal to the size of the pool,
  two sources of randomness that make the shuffle pick different items (last two
  conjuncts, a count of one) give the same result, the pool in its stored order, and no
  draw is made.
\<close>

theorem getRandomItems_whole_pool_not_shuffled:
  "fst (getRandomItems (initial_state example_catalog) [hug1, hug2] 2 ''hug'' False rng_zeros)
     = [createResponseObject (initial_state example_catalog) hug1 ''hug'',
        createResponseObject (initial_state example_catalog) hug2 ''hug''] \<and>
   fst (getRandomItems (initial_state example_catalog) [hug1, hug2] 2 ''hug'' False rng_ones)
     = [createResponseObject (initial_state example_catalog) hug1 ''hug'',
        createResponseObject (initial_state example_catalog) hug2 ''hug''] \<and>
   pos (snd (getRandomItems (initial_state example_catalog) [hug1, hug2] 2 ''hug'' False rng_ones))
     = pos rng_ones \<and>
   fst (getRandomItems (initial_state example_catalog) [hug1, hug2] 1 ''hug'' False rng_zeros)
     = [createResponseObject (initial_state example_catalog) hug1 ''hug''] \<and>
   fst (getRandomItems (initial_state example_catalog) [hug1, hug2] 1 ''hug'' False rng_ones)
     = [createResponseObject (initial_state example_catalog) hug2 ''hug'']"
  by code_simp

lemma selectDistributedMode_draw_each:
  "buildSearchFilteredCategories lower s categories searchTerms \<noteq> [] \<Longrightarrow>
   selectDistributedMode lower s amount categories searchTerms allowDup g =
     draw_each s allowDup
       (zip (buildSearchFilteredCategories lower s categories searchTerms)
            (distributed_shares amount
               (length (buildSearchFilteredCategories lower s categories searchTerms)))) g"
  by (cases "draw_each s allowDup
       (zip (buildSearchFilteredCategories lower s categories searchTerms)
            (distributed_shares amount
               (length (buildSearchFilteredCategories lower s categories searchTerms)))) g")
     (simp add: selectDistributedMode_def Let_def distributed_loop_draw_each distributed_shares_def)

lemma short_share:
  assumes "\<forall>e\<in>set fm. snd e \<noteq> []" and "length shares = length fm"
    and "sum_list (map (contribution allowDup) (zip fm shares)) < sum_list shares"
  shows "\<not> allowDup \<and> (\<exists>i<length fm. length (snd (fm ! i)) < shares ! i)"
proof -
  from assms(2) have "map snd (zip fm shares) = shares" by simp
  with assms(3) contributions_short [of allowDup "zip fm shares"]
  obtain e where e: "e \<in> set (zip fm shares)" and less: "contribution allowDup e < snd e"
    by auto
  obtain cat pool k where eq: "e = ((cat, pool), k)" by (cases e) auto
  from e eq obtain i where i: "i < length fm" "fm ! i = (cat, pool)" "shares ! i = k"
    by (auto simp: in_set_zip)
  with assms(1) have "pool \<noteq> []" by (metis nth_mem snd_conv)
  with less eq have "\<not> allowDup \<and> length pool < k"
    by (auto simp: contribution_def split: if_splits)
  with i show ?thesis by auto
qed

text \<open>
  C5. In Distributed mode with \<open>n \<ge> 1\<close> surviving categories \<open>fm\<close>, the result is
  the concatenation, in the insertion order of \<open>fm\<close>, of one \<open>getRandomItems\<close> draw
  per category, where category \<open>i\<close> is asked for \<open>amount div n + 1\<close> items when
  \<open>i < amount mod n\<close> and for \<open>amount div n\<close> otherwise. The shares add up to
  \<open>amount\<close>; the items come grouped by category, each category giving its
  \<open>contribution\<close>; the result has at most \<open>amount\<close> items, and fewer only when
  duplicates are not allowed and some pool is smaller than its share.
\<close>

theorem selectDistributedMode_shares:
  assumes "fm = buildSearchFilteredCategories lower s categories searchTerms"
    and "n = length fm" and "1 \<le> n"
  shows
  "selectDistributedMode lower s amount categories searchTerms allowDup g
     = draw_each s allowDup (zip fm (distributed_shares amount n)) g \<and>
   length (distributed_shares amount n) = n \<and>
   (\<forall>i<n. distributed_shares amount n ! i
            = (if i < amount mod n then amount div n + 1 else amount div n)) \<and>
   sum_list (distributed_shares amount n) = amount \<and>
   map action_of (fst (selectDistributedMode lower s amount categories searchTerms allowDup g))
     = concat (map (\<lambda>e. replicate (contribution allowDup e) (Some (Str (fst (fst e)))))
                 (zip fm (distributed_shares amount n))) \<and>
   length (fst (selectDistributedMode lower s amount categories searchTerms allowDup g)) \<le> amount \<and>
   (length (fst (selectDistributedMode lower s amount categories searchTerms allowDup g)) < amount \<longrightarrow>
      \<not> allowDup \<and> (\<exists>i<n. length (snd (fm ! i)) < distributed_shares amount n ! i))"
proof -
  let ?shares = "distributed_shares amount n"
  from assms have nonempty: "buildSearchFilteredCategories lower s categories searchTerms \<noteq> []"
    by auto
  have run: "selectDistributedMode lower s amount categories searchTerms allowDup g
               = draw_each s allowDup (zip fm ?shares) g"
    using selectDistributedMode_draw_each [OF nonempty] assms by simp
  have len: "length ?shares = n" by (simp add: distributed_shares_def)
  have nth: "\<forall>i<n. ?shares ! i = (if i < amount mod n then amount div n + 1 else amount div n)"
    by (simp add: distributed_shares_def)
  have total: "sum_list ?shares = amount"
    using assms(3) by (simp add: sum_shares)
  have snd_zip: "map snd (zip fm ?shares) = ?shares"
    using len assms(2) by simp
  have length_eq: "length (fst (selectDistributedMode lower s amount categories searchTerms allowDup g))
                     = sum_list (map (contribution allowDup) (zip fm ?shares))"
    by (simp add: run draw_each_length)
  have le: "length (fst (selectDistributedMode lower s amount categories searchTerms allowDup g)) \<le> amount"
    using contributions_le_shares [of allowDup "zip fm ?shares"] snd_zip total length_eq by simp
  have pools: "\<forall>e\<in>set fm. snd e \<noteq> []"
    using pools_nonempty [of lower s categories searchTerms] assms(1) by simp
  have short: "length (fst (selectDistributedMode lower s amount categories searchTerms allowDup g)) < amount
        \<longrightarrow> \<not> allowDup \<and> (\<exists>i<n. length (snd (fm ! i)) < ?shares ! i)"
  proof
    assume "length (fst (selectDistributedMode lower s amount categories searchTerms allowDup g)) < amount"
    with total length_eq
    have "sum_list (map (contribution allowDup) (zip fm ?shares)) < sum_list ?shares"
      by simp
    from short_share [OF pools _ this] len assms(2)
    show "\<not> allowDup \<and> (\<exists>i<n. length (snd (fm ! i)) < ?shares ! i)"
      by simp
  qed
  have acts: "map action_of (fst (selectDistributedMode lower s amount categories searchTerms allowDup g))
     = concat (map (\<lambda>e. replicate (contribution allowDup e) (Some (Str (fst (fst e)))))
                 (zip fm ?shares))"
    by (simp only: run draw_each_actions)
  show ?thesis
    by (intro conjI run len nth total acts le short)
qed

lemma example_build:
  "buildSearchFilteredCategories ascii_lower (initial_state example_catalog) VALID_ACTIONS [] = example_pools"
  by code_simp

text \<open>
  C5 on the example catalog: three items are two of \<open>hug\<close> and then one of
  \<open>waifu\<close>; seven items cannot be had from two pools of two.
\<close>

theorem selectDistributedMode_shares_witness:
  "example_pools = buildSearchFilteredCategories ascii_lower (initial_state example_catalog) VALID_ACTIONS [] \<and>
   1 \<le> length example_pools \<and>
   distributed_shares 3 (length example_pools) = [2, 1] \<and>
   map action_of (fst (selectDistributedMode ascii_lower (initial_state example_catalog) 3 VALID_ACTIONS []
                         False rng_count))
     = [Some (Str ''hug''), Some (Str ''hug''), Some (Str ''waifu'')] \<and>
   length (fst (selectDistributedMode ascii_lower (initial_state example_catalog) 7 VALID_ACTIONS []
                  False rng_count)) < 7 \<and>
   (\<exists>i<length example_pools.
      length (snd (example_pools ! i)) < distributed_shares 7 (length example_pools) ! i)"
proof -
  have n: "1 \<le> length example_pools" by (simp add: example_pools_def)
  have shares: "distributed_shares 3 (length example_pools) = [2, 1]" by code_simp
  have actions: "concat (map (\<lambda>e. replicate (contribution False e) (Some (Str (fst (fst e)))))
                   (zip example_pools [2, 1]))
                 = [Some (Str ''hug''), Some (Str ''hug''), Some (Str ''waifu'')]"
    by code_simp
  have short: "length (fst (selectDistributedMode ascii_lower (initial_state example_catalog) 7 VALID_ACTIONS []
                  False rng_count)) < 7"
    by code_simp
  from selectDistributedMode_shares [OF example_build [symmetric] refl n, of 3 False rng_count]
  have "map action_of (fst (selectDistributedMode ascii_lower (initial_state example_catalog) 3
                  VALID_ACTIONS [] False rng_count))
     = concat (map (\<lambda>e. replicate (contribution False e) (Some (Str (fst (fst e)))))
                 (zip example_pools (distributed_shares 3 (length example_pools))))"
    by blast
  then have three: "map action_of (fst (selectDistributedMode ascii_lower (initial_state example_catalog) 3
                  VALID_ACTIONS [] False rng_count))
     = [Some (Str ''hug''), Some (Str ''hug''), Some (Str ''waifu'')]"
    by (simp only: shares actions)
  from selectDistributedMode_shares [OF example_build [symmetric] refl n, of 7 False rng_count] short
  have seven: "\<exists>i<length example_pools.
      length (snd (example_pools ! i)) < distributed_shares 7 (length example_pools) ! i"
    by blast
  from example_build n shares three short seven show ?thesis by simp
qed

text \<open>
  C2. A fetch in Random mode without duplicates over more than one surviving category
  returns a result and no error: the items \<open>selectRandomMode\<close> produced, at most
  \<open>amount\<close> of them, with pairwise different URLs, within \<open>1 + MAX_RETRY_ATTEMPTS\<close>
  draws per requested item. The selection is the \<open>for\<close> loop started on empty
  \<open>result\<close> and \<open>usedUrls\<close>. At any point of that loop, when the fifty draws that
  follow the draw of the category all pick items whose URLs are used, the loop stops
  there: it returns the items collected so far, after those fifty-one draws, and makes
  no further draw. In all, the loop makes the draws of \<open>unique_draws\<close>.
\<close>

theorem random_mode_truncates_silently:
  assumes "1 < length (buildSearchFilteredCategories lower s (p_actions p) (p_search p))"
    and "parseOptions s options = Inr p" and "p_mode p = RANDOM" and "\<not> p_dupe p"
  shows "(\<exists>r. fst (callNeko lower s options g) = Inr r \<and>
           items_of r = fst (selectRandomMode lower s (p_amount p) (p_actions p) (p_search p) False g) \<and>
           length (items_of r) \<le> p_amount p \<and>
           distinct (map url_of (items_of r)) \<and>
           pos (snd (callNeko lower s options g)) \<le> pos g + p_amount p * (1 + MAX_RETRY_ATTEMPTS) \<and>
           MAX_RETRY_ATTEMPTS = 50) \<and>
         selectRandomMode lower s (p_amount p) (p_actions p) (p_search p) False g
           = random_loop s (p_amount p)
               (buildSearchFilteredCategories lower s (p_actions p) (p_search p)) False 0 [] [] g \<and>
         (\<forall>fm i result usedUrls h.
            i < p_amount p \<and>
            (\<forall>k<MAX_RETRY_ATTEMPTS.
               constructFullUrl (url (attempt_item (snd (fm ! (gen h (pos h) mod length fm)))
                                       (h\<lparr> pos := pos h + 1 \<rparr>) k)) \<in> set usedUrls) \<longrightarrow>
            random_loop s (p_amount p) fm False i result usedUrls h
              = (result, h\<lparr> pos := pos h + 1 + MAX_RETRY_ATTEMPTS \<rparr>)) \<and>
         (\<forall>fm i result usedUrls h.
            random_loop s (p_amount p) fm False i result usedUrls h
              = unique_draws s fm (p_amount p - i) result usedUrls h)"
proof -
  obtain result g' where sel:
    "selectRandomMode lower s (p_amount p) (p_actions p) (p_search p) False g = (result, g')"
    by (cases "selectRandomMode lower s (p_amount p) (p_actions p) (p_search p) False g")
  with assms have call:
    "callNeko lower s options g =
       (Inr (if p_amount p = 1 \<and> length result = 1 then Single (result ! 0) else Many result), g')"
    by (simp add: callNeko_def select_by_mode_def)
  from selectRandomMode_several [OF assms(1), of "p_amount p" g] sel call
  have first: "\<exists>r. fst (callNeko lower s options g) = Inr r \<and>
           items_of r = fst (selectRandomMode lower s (p_amount p) (p_actions p) (p_search p) False g) \<and>
           length (items_of r) \<le> p_amount p \<and>
           distinct (map url_of (items_of r)) \<and>
           pos (snd (callNeko lower s options g)) \<le> pos g + p_amount p * (1 + MAX_RETRY_ATTEMPTS) \<and>
           MAX_RETRY_ATTEMPTS = 50"
    by (simp add: items_of_wrap MAX_RETRY_ATTEMPTS_def)
  have loop: "selectRandomMode lower s (p_amount p) (p_actions p) (p_search p) False g
           = random_loop s (p_amount p)
               (buildSearchFilteredCategories lower s (p_actions p) (p_search p)) False 0 [] [] g"
    using assms(1) by (auto simp: selectRandomMode_def Let_def)
  have stops: "\<forall>fm i result usedUrls h.
            i < p_amount p \<and>
            (\<forall>k<MAX_RETRY_ATTEMPTS.
               constructFullUrl (url (attempt_item (snd (fm ! (gen h (pos h) mod length fm)))
                                       (h\<lparr> pos := pos h + 1 \<rparr>) k)) \<in> set usedUrls) \<longrightarrow>
            random_loop s (p_amount p) fm False i result usedUrls h
              = (result, h\<lparr> pos := pos h + 1 + MAX_RETRY_ATTEMPTS \<rparr>)"
    using random_loop_stops by blast
  have draws: "\<forall>fm i result usedUrls h.
            random_loop s (p_amount p) fm False i result usedUrls h
              = unique_draws s fm (p_amount p - i) result usedUrls h"
    by (simp add: random_loop_unique_draws)
  show ?thesis
    by (intro conjI first loop stops draws)
qed

lemma five_parse: "parseOptions (initial_state example_catalog) five_items = Inr five_params"
  by code_simp

lemma three_parse: "parseOptions (initial_state example_catalog) three_items = Inr three_params"
  by code_simp

lemma three_call:
  "fst (callNeko ascii_lower (initial_state example_catalog) three_items rng_late)
     = Inr (Many [createResponseObject (initial_state example_catalog) hug1 ''hug''])"
  by code_simp

lemma three_draws:
  "pos (snd (callNeko ascii_lower (initial_state example_catalog) three_items rng_late)) = 53"
  by code_simp

lemma exhausted_example:
  "list_all (\<lambda>k. constructFullUrl (url (attempt_item
                (snd (example_pools ! (gen (rng_late\<lparr> pos := 2 \<rparr>) (pos (rng_late\<lparr> pos := 2 \<rparr>))
                                        mod length example_pools)))
                (rng_late\<lparr> pos := 2, pos := pos (rng_late\<lparr> pos := 2 \<rparr>) + 1 \<rparr>) k))
              \<in> set [constructFullUrl (url hug1)]) [0..<MAX_RETRY_ATTEMPTS]"
  by code_simp

lemma later_fresh:
  "constructFullUrl (url (attempt_item (snd (example_pools ! (gen rng_late 53 mod length example_pools)))
      (rng_late\<lparr> pos := 54 \<rparr>) 0)) \<notin> set [constructFullUrl (url hug1)]"
  by code_simp

text \<open>
  C2 on the example catalog, which holds four items. A request for five returns the four
  of them, and no error. A request for three, with a source of randomness that picks the
  first \<open>hug\<close> record for its first 53 draws, returns that one record: the second
  draw exhausts its fifty attempts and the loop stops after 53 draws, although the
  draws that would follow pick a record that is not used.
\<close>

theorem random_mode_truncates_silently_witness:
  "1 < length (buildSearchFilteredCategories ascii_lower (initial_state example_catalog)
                 (p_actions five_params) (p_search five_params)) \<and>
   parseOptions (initial_state example_catalog) five_items = Inr five_params \<and>
   p_mode five_params = RANDOM \<and> \<not> p_dupe five_params \<and>
   (\<exists>r. fst (callNeko ascii_lower (initial_state example_catalog) five_items rng_count) = Inr r \<and>
        length (items_of r) = 4 \<and> 4 < p_amount five_params \<and>
        distinct (map url_of (items_of r))) \<and>
   parseOptions (initial_state example_catalog) three_items = Inr three_params \<and>
   p_amount three_params = 3 \<and>
   fst (callNeko ascii_lower (initial_state example_catalog) three_items rng_late)
     = Inr (Many [createResponseObject (initial_state example_catalog) hug1 ''hug'']) \<and>
   pos (snd (callNeko ascii_lower (initial_state example_catalog) three_items rng_late)) = 53 \<and>
   fst (random_loop (initial_state example_catalog) (p_amount three_params) example_pools False 1
          [createResponseObject (initial_state example_catalog) hug1 ''hug'']
          [constructFullUrl (url hug1)] (rng_late\<lparr> pos := 2 \<rparr>))
     = [createResponseObject (initial_state example_catalog) hug1 ''hug''] \<and>
   pos (snd (random_loop (initial_state example_catalog) (p_amount three_params) example_pools False 1
          [createResponseObject (initial_state example_catalog) hug1 ''hug'']
          [constructFullUrl (url hug1)] (rng_late\<lparr> pos := 2 \<rparr>))) = 53 \<and>
   constructFullUrl (url (attempt_item
       (snd (example_pools ! (gen rng_late 53 mod length example_pools)))
       (rng_late\<lparr> pos := 54 \<rparr>) 0)) \<notin> set [constructFullUrl (url hug1)]"
proof -
  have several: "1 < length (buildSearchFilteredCategories ascii_lower (initial_state example_catalog)
                 (p_actions five_params) (p_search five_params))"
    by code_simp
  have mode: "p_mode five_params = RANDOM" and dupe: "\<not> p_dupe five_params"
    and five: "p_amount five_params = 5"
    by (simp_all add: five_params_def)
  have four: "length (fst (selectRandomMode ascii_lower (initial_state example_catalog)
                (p_amount five_params) (p_actions five_params) (p_search five_params) False
                rng_count)) = 4"
    by code_simp
  note claim = random_mode_truncates_silently [OF several five_parse mode dupe, of rng_count]
  from claim
  obtain r where "fst (callNeko ascii_lower (initial_state example_catalog) five_items rng_count) = Inr r"
    and "items_of r = fst (selectRandomMode ascii_lower (initial_state example_catalog)
                (p_amount five_params) (p_actions five_params) (p_search five_params) False
                rng_count)"
    and "distinct (map url_of (items_of r))"
    by blast
  with four five
  have short: "\<exists>r. fst (callNeko ascii_lower (initial_state example_catalog) five_items rng_count) = Inr r \<and>
        length (items_of r) = 4 \<and> 4 < p_amount five_params \<and>
        distinct (map url_of (items_of r))"
    by auto
  have three: "p_amount three_params = 3" and mode3: "p_mode three_params = RANDOM"
    and dupe3: "\<not> p_dupe three_params"
    by (simp_all add: three_params_def)
  have several3: "1 < length (buildSearchFilteredCategories ascii_lower (initial_state example_catalog)
                 (p_actions three_params) (p_search three_params))"
    by code_simp
  have exhausted: "\<forall>k<MAX_RETRY_ATTEMPTS. constructFullUrl (url (attempt_item
                (snd (example_pools ! (gen (rng_late\<lparr> pos := 2 \<rparr>) (pos (rng_late\<lparr> pos := 2 \<rparr>))
                                        mod length example_pools)))
                (rng_late\<lparr> pos := 2, pos := pos (rng_late\<lparr> pos := 2 \<rparr>) + 1 \<rparr>) k))
              \<in> set [constructFullUrl (url hug1)]"
    using exhausted_example unfolding list_all_iff by simp
  have "(1::nat) < p_amount three_params" by (simp add: three)
  with random_mode_truncates_silently [OF several3 three_parse mode3 dupe3, of rng_late] exhausted
  have "random_loop (initial_state example_catalog) (p_amount three_params) example_pools False 1
          [createResponseObject (initial_state example_catalog) hug1 ''hug'']
          [constructFullUrl (url hug1)] (rng_late\<lparr> pos := 2 \<rparr>)
        = ([createResponseObject (initial_state example_catalog) hug1 ''hug''],
           rng_late\<lparr> pos := 2, pos := pos (rng_late\<lparr> pos := 2 \<rparr>) + 1 + MAX_RETRY_ATTEMPTS \<rparr>)"
    by blast
  then have stop: "fst (random_loop (initial_state example_catalog) (p_amount three_params)
          example_pools False 1
          [createResponseObject (initial_state example_catalog) hug1 ''hug'']
          [constructFullUrl (url hug1)] (rng_late\<lparr> pos := 2 \<rparr>))
     = [createResponseObject (initial_state example_catalog) hug1 ''hug''] \<and>
   pos (snd (random_loop (initial_state example_catalog) (p_amount three_params) example_pools False 1
          [createResponseObject (initial_state example_catalog) hug1 ''hug'']
          [constructFullUrl (url hug1)] (rng_late\<lparr> pos := 2 \<rparr>))) = 53"
    by (simp add: MAX_RETRY_ATTEMPTS_def)
  from several five_parse mode dupe short three_parse three three_call three_draws stop
    later_fresh
  show ?thesis by blast
qed

section \<open>Claims about the response projector\<close>

lemma metadata_keys_createResponseObject:
  "metadata_keys (createResponseObject s it category) =
     filter (\<lambda>f. shouldIncludeMetadataField s f category)
       (if category \<in> set IMAGE_CATEGORIES then METADATA_FIELDS_IMAGE else METADATA_FIELDS_GIF)"
  by (simp add: metadata_keys_def createResponseObject_def Let_def METADATA_FIELDS_IMAGE_def
        METADATA_FIELDS_GIF_def)

lemma projected_keys:
  "set (metadata_keys (createResponseObject s it category))
     = kind_fields (getContentType category) \<inter> policy_fields s"
  unfolding metadata_keys_createResponseObject
  by (auto simp: kind_fields_def policy_fields_def shouldIncludeMetadataField_def
        getContentType_def METADATA_FIELDS_IMAGE_def METADATA_FIELDS_GIF_def
        split: option.splits if_splits)

lemma projected_values:
  "k \<in> set (metadata_keys (createResponseObject s it category)) \<Longrightarrow>
   map_of (createResponseObject s it category) k = Some (read_field (record_field it k))"
  unfolding metadata_keys_def
  by (auto simp: createResponseObject_def Let_def record_field_def split: if_splits)

lemma read_field_not_null: "read_field x \<noteq> Null"
  by (cases x) simp_all

text \<open>
  C4 (as amended). The metadata properties of a response are exactly the fields valid for
  the kind of its category that the gate's policy lets through. Each of them carries what
  the record holds under that name: a field that the record lacks is a property of the
  response all the same, with the value \<open>undefined\<close>, and never \<open>null\<close>.
\<close>

theorem createResponseObject_projection:
  "set (metadata_keys (createResponseObject s it category))
     = kind_fields (getContentType category) \<inter> policy_fields s \<and>
   (\<forall>k\<in>set (metadata_keys (createResponseObject s it category)).
      map_of (createResponseObject s it category) k = Some (read_field (record_field it k)) \<and>
      map_of (createResponseObject s it category) k \<noteq> Some Null \<and>
      (record_field it k = None \<longrightarrow>
         map_of (createResponseObject s it category) k = Some Undefined))"
  using projected_keys [of s it category] projected_values [of _ s it category]
  by (auto simp: read_field_not_null)

text \<open>
  The amended C4 on a gate locked to GIFs with the \<open>anime_name\<close> field, and a record
  without that field.
\<close>

theorem createResponseObject_projection_witness:
  "set (metadata_keys (createResponseObject locked_gifs hug2 ''hug'')) = {''anime_name''} \<and>
   kind_fields (getContentType ''hug'') \<inter> policy_fields locked_gifs = {''anime_name''} \<and>
   record_field hug2 ''anime_name'' = None \<and>
   map_of (createResponseObject locked_gifs hug2 ''hug'') ''anime_name'' = Some Undefined"
proof -
  have keys: "metadata_keys (createResponseObject locked_gifs hug2 ''hug'') = [''anime_name'']"
    by code_simp
  have absent: "record_field hug2 ''anime_name'' = None"
    by code_simp
  from createResponseObject_projection [of locked_gifs hug2 "''hug''"] keys absent
  show ?thesis by simp
qed

text \<open>
  C4 as stated says that a field absent on the record is omitted from the item. The
  second \<open>hug\<close> record has no \<open>anime_name\<close>, and its response has the property.
\<close>

theorem absent_field_is_emitted:
  "anime_name hug2 = None \<and>
   ''anime_name'' \<in> set (metadata_keys
       (createResponseObject (initial_state example_catalog) hug2 ''hug''))"
  by code_simp

section \<open>Claims about the intent metadata\<close>

lemma example_unlocked: "\<not> intentLocked (initial_state example_catalog)"
  by (simp add: initial_state_def)

lemma example_raw: "rawGifsData (initial_state example_catalog) = Some example_catalog"
  by (simp add: initial_state_def)

text \<open>
  C6 (as amended). On a gate that is not locked: the metadata values \<open>0\<close> and
  \<open>false\<close> give the policy "none" (the empty list); the values \<open>1\<close> and \<open>true\<close>
  (as an absent or \<open>null\<close> metadata) give the policy "all", narrowed to the fields of
  the kind when the type is IMAGE or GIF; none of them raises an error. Every other value that is neither absent, \<open>null\<close>
  nor a list is rejected with a ConfigurationError, and the state is left as it was.
\<close>

theorem callNekoIntent_scalar_metadata:
  assumes "\<not> intentLocked s" and "rawGifsData s = Some raw"
  shows
  "(md = Num (Finite 0) \<or> md = Bool False \<longrightarrow>
      fst (callNekoIntent \<lparr> io_metadata = md, io_type = t \<rparr> s) = Inr () \<and>
      metadata (intentConfig (snd (callNekoIntent \<lparr> io_metadata = md, io_type = t \<rparr> s)))
        = Some []) \<and>
   (md = Undefined \<or> md = Null \<or> md = Num (Finite 1) \<or> md = Bool True \<longrightarrow>
      fst (callNekoIntent \<lparr> io_metadata = md, io_type = t \<rparr> s) = Inr () \<and>
      metadata (intentConfig (snd (callNekoIntent \<lparr> io_metadata = md, io_type = t \<rparr> s)))
        = (if normalizeType (default_to (Num (Finite 3)) t) = IMAGE then Some METADATA_FIELDS_IMAGE
           else if normalizeType (default_to (Num (Finite 3)) t) = GIF then Some METADATA_FIELDS_GIF
           else None)) \<and>
   (md \<notin> {Undefined, Null, Num (Finite 0), Bool False, Num (Finite 1), Bool True} \<and>
    (\<forall>entries. md \<noteq> Arr entries) \<longrightarrow>
      callNekoIntent \<lparr> io_metadata = md, io_type = t \<rparr> s = (Inl MetadataShape, s) \<and>
      error_class_of MetadataShape = ConfigurationError)"
proof (intro conjI impI)
  let ?nt = "normalizeType (default_to (Num (Finite 3)) t)"
  {
    assume "md = Num (Finite 0) \<or> md = Bool False"
    then have m: "intent_metadata md ?nt = Inr (Some [])"
      by (auto simp: intent_metadata_def)
    from callNekoIntent_unlocked [OF assms, of "\<lparr> io_metadata = md, io_type = t \<rparr>" "Some []"] m
    show "fst (callNekoIntent \<lparr> io_metadata = md, io_type = t \<rparr> s) = Inr ()"
      and "metadata (intentConfig (snd (callNekoIntent \<lparr> io_metadata = md, io_type = t \<rparr> s)))
             = Some []"
      by simp_all
  }
  {
    assume "md = Undefined \<or> md = Null \<or> md = Num (Finite 1) \<or> md = Bool True"
    then have m: "intent_metadata md ?nt = Inr None"
      by (auto simp: intent_metadata_def)
    from callNekoIntent_unlocked [OF assms, of "\<lparr> io_metadata = md, io_type = t \<rparr>" None] m
    show "fst (callNekoIntent \<lparr> io_metadata = md, io_type = t \<rparr> s) = Inr ()"
      and "metadata (intentConfig (snd (callNekoIntent \<lparr> io_metadata = md, io_type = t \<rparr> s)))
        = (if ?nt = IMAGE then Some METADATA_FIELDS_IMAGE
           else if ?nt = GIF then Some METADATA_FIELDS_GIF
           else None)"
      by simp_all
  }
  {
    assume "md \<notin> {Undefined, Null, Num (Finite 0), Bool False, Num (Finite 1), Bool True} \<and>
            (\<forall>entries. md \<noteq> Arr entries)"
    then have "intent_metadata md ?nt = Inl MetadataShape"
      using intent_metadata_scalar [of md ?nt] by simp
    from callNekoIntent_metadata_error [OF assms(1), of "\<lparr> io_metadata = md, io_type = t \<rparr>", simplified, OF this]
    show "callNekoIntent \<lparr> io_metadata = md, io_type = t \<rparr> s = (Inl MetadataShape, s)" .
    show "error_class_of MetadataShape = ConfigurationError" by simp
  }
qed

text \<open>
  The amended C6 on the initial state of the example catalog.
\<close>

theorem callNekoIntent_scalar_metadata_witness:
  "\<not> intentLocked (initial_state example_catalog) \<and>
   rawGifsData (initial_state example_catalog) = Some example_catalog \<and>
   fst (callNekoIntent \<lparr> io_metadata = Num (Finite 0), io_type = Num (Finite 1) \<rparr>
          (initial_state example_catalog)) = Inr () \<and>
   metadata (intentConfig (snd (callNekoIntent
       \<lparr> io_metadata = Num (Finite 0), io_type = Num (Finite 1) \<rparr>
       (initial_state example_catalog)))) = Some [] \<and>
   metadata (intentConfig (snd (callNekoIntent
       \<lparr> io_metadata = Bool True, io_type = Str ''gifs'' \<rparr>
       (initial_state example_catalog)))) = Some [''anime_name''] \<and>
   callNekoIntent \<lparr> io_metadata = Num (Finite 2), io_type = Undefined \<rparr>
       (initial_state example_catalog) = (Inl MetadataShape, initial_state example_catalog)"
proof -
  have gifs: "normalizeType (default_to (Num (Finite 3)) (Str ''gifs'')) = GIF"
    by code_simp
  show ?thesis
    using callNekoIntent_scalar_metadata [OF example_unlocked example_raw,
            of "Num (Finite 0)" "Num (Finite 1)"]
      callNekoIntent_scalar_metadata [OF example_unlocked example_raw,
            of "Bool True" "Str ''gifs''"]
      callNekoIntent_scalar_metadata [OF example_unlocked example_raw,
            of "Num (Finite 2)" Undefined]
    by (simp add: gifs example_unlocked example_raw METADATA_FIELDS_GIF_def)
qed

text \<open>
  C6 as stated covers any truthy value that is not a list and any falsy value. The
  string \<open>yes\<close> is truthy and the empty string is falsy; both are rejected.
\<close>

theorem scalar_metadata_rejected:
  "truthy (Str ''yes'') \<and>
   callNekoIntent text_metadata (initial_state example_catalog)
     = (Inl MetadataShape, initial_state example_catalog) \<and>
   \<not> truthy (Str []) \<and>
   callNekoIntent empty_text_metadata (initial_state example_catalog)
     = (Inl MetadataShape, initial_state example_catalog)"
  by (simp add: callNekoIntent_def intent_metadata_def initial_state_def text_metadata_def
        empty_text_metadata_def)

lemma callNekoIntent_cong_metadata:
  "intent_metadata md (normalizeType (default_to (Num (Finite 3)) t))
     = intent_metadata md' (normalizeType (default_to (Num (Finite 3)) t)) \<Longrightarrow>
   callNekoIntent \<lparr> io_metadata = md, io_type = t \<rparr> s
     = callNekoIntent \<lparr> io_metadata = md', io_type = t \<rparr> s"
  by (simp add: callNekoIntent_def)

text \<open>
  C10. Every string is a name with white-space characters before and after it, the name
  empty or clean, and \<open>trim\<close> gives that name. On a list of such entries
  \<open>callNekoIntent\<close> behaves as on the list of the names that are not empty: the entries
  are trimmed, and those that become empty are dropped, before anything is validated.
  A list of blank entries only behaves as the empty list, never raises the unknown-field
  error, and on a gate that is not locked it succeeds with the policy "none".
\<close>

theorem blank_metadata_entries_dropped:
  "(\<exists>e. well_padded e \<and> padded e = f) \<and>
   (well_padded e \<longrightarrow> trim (padded e) = core_of e) \<and>
   ((\<forall>e\<in>set es. well_padded e) \<longrightarrow>
      callNekoIntent \<lparr> io_metadata = Arr (map (\<lambda>e. Str (padded e)) es), io_type = t \<rparr> s
        = callNekoIntent \<lparr> io_metadata = Arr (map Str (filter (\<lambda>f. f \<noteq> []) (map core_of es))),
                           io_type = t \<rparr> s) \<and>
   ((\<forall>e\<in>set es. well_padded e \<and> core_of e = []) \<longrightarrow>
      callNekoIntent \<lparr> io_metadata = Arr (map (\<lambda>e. Str (padded e)) es), io_type = t \<rparr> s
        = callNekoIntent \<lparr> io_metadata = Arr [], io_type = t \<rparr> s \<and>
      (\<forall>invalid. fst (callNekoIntent \<lparr> io_metadata = Arr (map (\<lambda>e. Str (padded e)) es),
                                       io_type = t \<rparr> s)
         \<noteq> Inl (InvalidMetadataFields invalid)) \<and>
      (\<not> intentLocked s \<and> rawGifsData s \<noteq> None \<longrightarrow>
         fst (callNekoIntent \<lparr> io_metadata = Arr (map (\<lambda>e. Str (padded e)) es),
                               io_type = t \<rparr> s) = Inr () \<and>
         metadata (intentConfig (snd (callNekoIntent
             \<lparr> io_metadata = Arr (map (\<lambda>e. Str (padded e)) es), io_type = t \<rparr> s))) = Some []))"
proof (intro conjI impI)
  show "\<exists>e. well_padded e \<and> padded e = f" by (rule every_string_padded)
next
  assume "well_padded e"
  then show "trim (padded e) = core_of e" by (rule trim_padded_entry)
next
  let ?nt = "normalizeType (default_to (Num (Finite 3)) t)"
  assume "\<forall>e\<in>set es. well_padded e"
  then have "map trim (map padded es) = map core_of es"
    by (induction es) (simp_all add: trim_padded_entry)
  then have "filter (\<lambda>f. f \<noteq> []) (map trim (map padded es))
               = filter (\<lambda>f. f \<noteq> []) (map core_of es)"
    by (simp only:)
  with intent_metadata_cleaned [of "map padded es" ?nt]
  have "intent_metadata (Arr (map (\<lambda>e. Str (padded e)) es)) ?nt
          = intent_metadata (Arr (map Str (filter (\<lambda>f. f \<noteq> []) (map core_of es)))) ?nt"
    by (simp add: comp_def)
  then show "callNekoIntent \<lparr> io_metadata = Arr (map (\<lambda>e. Str (padded e)) es), io_type = t \<rparr> s
        = callNekoIntent \<lparr> io_metadata = Arr (map Str (filter (\<lambda>f. f \<noteq> []) (map core_of es))),
                           io_type = t \<rparr> s"
    by (rule callNekoIntent_cong_metadata)
next
  let ?nt = "normalizeType (default_to (Num (Finite 3)) t)"
  let ?md = "Arr (map (\<lambda>e. Str (padded e)) es)"
  assume blank: "\<forall>e\<in>set es. well_padded e \<and> core_of e = []"
  then have "\<forall>f\<in>set (map padded es). trim f = []"
    by (auto simp: trim_padded_entry)
  from intent_metadata_blank [OF this, of ?nt]
  have m: "intent_metadata ?md ?nt = Inr (Some [])"
    by (simp add: comp_def)
  have "intent_metadata (Arr []) ?nt = Inr (Some [])"
    using intent_metadata_blank [of "[]" ?nt] by simp
  with m show "callNekoIntent \<lparr> io_metadata = ?md, io_type = t \<rparr> s
        = callNekoIntent \<lparr> io_metadata = Arr [], io_type = t \<rparr> s"
    by (intro callNekoIntent_cong_metadata) simp
  show "\<forall>invalid. fst (callNekoIntent \<lparr> io_metadata = ?md, io_type = t \<rparr> s)
         \<noteq> Inl (InvalidMetadataFields invalid)"
    using m by (auto simp: callNekoIntent_def Let_def split: option.splits)
  {
    assume "\<not> intentLocked s \<and> rawGifsData s \<noteq> None"
    then obtain raw where u: "\<not> intentLocked s" "rawGifsData s = Some raw" by auto
    from callNekoIntent_unlocked [OF u, of "\<lparr> io_metadata = ?md, io_type = t \<rparr>" "Some []"] m
    show "fst (callNekoIntent \<lparr> io_metadata = ?md, io_type = t \<rparr> s) = Inr ()"
      and "metadata (intentConfig (snd (callNekoIntent \<lparr> io_metadata = ?md, io_type = t \<rparr> s)))
             = Some []"
      by simp_all
  }
qed

text \<open>
  C10 on the entries \<open>anime_name\<close> between two spaces and a tab, a no-break space, and
  the empty string: the call succeeds and keeps \<open>anime_name\<close>. On blank entries only
  it succeeds with the empty list.
\<close>

theorem blank_metadata_entries_dropped_witness:
  "list_all well_padded padded_entries \<and>
   map padded padded_entries
     = [''  anime_name'' @ TAB, NBSP, []] \<and>
   trim (''  anime_name'' @ TAB) = ''anime_name'' \<and>
   trim NBSP = [] \<and>
   fst (callNekoIntent \<lparr> io_metadata = Arr (map (\<lambda>e. Str (padded e)) padded_entries),
                         io_type = Undefined \<rparr> (initial_state example_catalog)) = Inr () \<and>
   metadata (intentConfig (snd (callNekoIntent
       \<lparr> io_metadata = Arr (map (\<lambda>e. Str (padded e)) padded_entries), io_type = Undefined \<rparr>
       (initial_state example_catalog)))) = Some [''anime_name''] \<and>
   list_all (\<lambda>e. well_padded e \<and> core_of e = []) blank_only_entries \<and>
   \<not> intentLocked (initial_state example_catalog) \<and>
   rawGifsData (initial_state example_catalog) \<noteq> None \<and>
   fst (callNekoIntent \<lparr> io_metadata = Arr (map (\<lambda>e. Str (padded e)) blank_only_entries),
                         io_type = Undefined \<rparr> (initial_state example_catalog)) = Inr () \<and>
   metadata (intentConfig (snd (callNekoIntent
       \<lparr> io_metadata = Arr (map (\<lambda>e. Str (padded e)) blank_only_entries), io_type = Undefined \<rparr>
       (initial_state example_catalog)))) = Some []"
proof -
  note claim = blank_metadata_entries_dropped
  have wp: "list_all well_padded padded_entries" by code_simp
  have strings: "map padded padded_entries
     = [''  anime_name'' @ TAB, NBSP, []]"
    by code_simp
  have cores: "filter (\<lambda>f. f \<noteq> []) (map core_of padded_entries) = [''anime_name'']"
    by code_simp
  have e1: "well_padded (['' '', '' ''], ''anime_name'', [TAB])"
    and e2: "well_padded ([NBSP], [], [])"
    by code_simp+
  from claim [where e = "(['' '', '' ''], ''anime_name'', [TAB])"] e1
  have t1: "trim (''  anime_name'' @ TAB) = ''anime_name''"
    by (simp add: padded_def core_of_def)
  from claim [where e = "([NBSP], [], [])"] e2
  have t2: "trim NBSP = []"
    by (simp add: padded_def core_of_def)
  have named: "fst (callNekoIntent \<lparr> io_metadata = Arr [Str ''anime_name''], io_type = Undefined \<rparr>
                      (initial_state example_catalog)) = Inr ()"
    and kept: "metadata (intentConfig (snd (callNekoIntent
                 \<lparr> io_metadata = Arr [Str ''anime_name''], io_type = Undefined \<rparr>
                 (initial_state example_catalog)))) = Some [''anime_name'']"
    by code_simp+
  from claim [where es = padded_entries and t = Undefined and s = "initial_state example_catalog"] wp
  have "callNekoIntent \<lparr> io_metadata = Arr (map (\<lambda>e. Str (padded e)) padded_entries),
                         io_type = Undefined \<rparr> (initial_state example_catalog)
          = callNekoIntent \<lparr> io_metadata = Arr (map Str (filter (\<lambda>f. f \<noteq> [])
                                (map core_of padded_entries))), io_type = Undefined \<rparr>
              (initial_state example_catalog)"
    unfolding list_all_iff by blast
  with named kept have some: "fst (callNekoIntent \<lparr> io_metadata = Arr (map (\<lambda>e. Str (padded e)) padded_entries),
                         io_type = Undefined \<rparr> (initial_state example_catalog)) = Inr () \<and>
     metadata (intentConfig (snd (callNekoIntent
       \<lparr> io_metadata = Arr (map (\<lambda>e. Str (padded e)) padded_entries), io_type = Undefined \<rparr>
       (initial_state example_catalog)))) = Some [''anime_name'']"
    by (simp only: cores list.map)
  have blank: "list_all (\<lambda>e. well_padded e \<and> core_of e = []) blank_only_entries" by code_simp
  have raw: "rawGifsData (initial_state example_catalog) \<noteq> None"
    by (simp add: example_raw)
  from claim [where es = blank_only_entries and t = Undefined and s = "initial_state example_catalog"]
    blank example_unlocked raw
  have none: "fst (callNekoIntent \<lparr> io_metadata = Arr (map (\<lambda>e. Str (padded e)) blank_only_entries),
                         io_type = Undefined \<rparr> (initial_state example_catalog)) = Inr () \<and>
     metadata (intentConfig (snd (callNekoIntent
       \<lparr> io_metadata = Arr (map (\<lambda>e. Str (padded e)) blank_only_entries), io_type = Undefined \<rparr>
       (initial_state example_catalog)))) = Some []"
    unfolding list_all_iff by blast
  from wp strings t1 t2 some blank example_unlocked raw none show ?thesis by blast
qed

section \<open>Claims about the fetch operation\<close>





text \<open>
  C8. A successful \<open>callNeko\<close> returns the one item unwrapped exactly when the
  normalised amount is 1 and the selection produced exactly one item; in every other case
  it returns the whole sequence the selection produced, empty or short as it may be.
\<close>

theorem callNeko_unwraps_single:
  "fst (callNeko lower s options g) = Inr r \<Longrightarrow>
   \<exists>p result. parseOptions s options = Inr p \<and> fst (select_by_mode lower s p g) = result \<and>
     ((p_amount p = 1 \<and> (\<exists>x. result = [x] \<and> r = Single x)) \<or>
      (\<not> (p_amount p = 1 \<and> length result = 1) \<and> r = Many result))"
  by (auto simp: callNeko_def length_Suc_conv split: sum.splits prod.splits if_splits)

lemma bare_call:
  "fst (callNeko ascii_lower (initial_state example_catalog) no_options rng_count)
     = Inr (Single (createResponseObject (initial_state example_catalog) hug2 ''hug''))"
  by code_simp

lemma five_call:
  "fst (callNeko ascii_lower (initial_state example_catalog) five_items rng_count)
     = Inr (Many (fst (selectRandomMode ascii_lower (initial_state example_catalog) 5 VALID_ACTIONS [] False
                         rng_count)))"
  by code_simp

text \<open>
  C8 on the example catalog: the call without options returns one object; the call for
  five items returns the sequence of the four items there are.
\<close>

theorem callNeko_unwraps_single_witness:
  "fst (callNeko ascii_lower (initial_state example_catalog) no_options rng_count)
     = Inr (Single (createResponseObject (initial_state example_catalog) hug2 ''hug'')) \<and>
   (\<exists>p result. parseOptions (initial_state example_catalog) no_options = Inr p \<and>
      fst (select_by_mode ascii_lower (initial_state example_catalog) p rng_count) = result \<and>
      p_amount p = 1 \<and>
      result = [createResponseObject (initial_state example_catalog) hug2 ''hug'']) \<and>
   fst (callNeko ascii_lower (initial_state example_catalog) five_items rng_count)
     = Inr (Many (fst (selectRandomMode ascii_lower (initial_state example_catalog) 5 VALID_ACTIONS [] False
                         rng_count))) \<and>
   (\<exists>p result. parseOptions (initial_state example_catalog) five_items = Inr p \<and>
      fst (select_by_mode ascii_lower (initial_state example_catalog) p rng_count) = result \<and>
      \<not> (p_amount p = 1 \<and> length result = 1) \<and>
      result = fst (selectRandomMode ascii_lower (initial_state example_catalog) 5 VALID_ACTIONS [] False
                      rng_count))"
  using callNeko_unwraps_single [OF bare_call] callNeko_unwraps_single [OF five_call]
    bare_call five_call
  by auto

text \<open>
  C9. When the \<open>amount\<close> option is absent the normalised amount is 1, so a call that
  produces exactly one item returns it unwrapped; in particular the call without options,
  which selects in Random mode, without a search, among the default categories.
\<close>

theorem absent_amount_is_one:
  "(o_amount options = Undefined \<and> parseOptions s options = Inr p \<longrightarrow>
      p_amount p = 1 \<and>
      (fst (select_by_mode lower s p g) = [x] \<longrightarrow> fst (callNeko lower s options g) = Inr (Single x))) \<and>
   (default_actions s \<noteq> [] \<and>
    fst (selectRandomMode lower s 1 (default_actions s) [] False g) = [x] \<longrightarrow>
      fst (callNeko lower s no_options g) = Inr (Single x))"
  using parseOptions_no_amount [of options s p]
  by (auto simp: callNeko_def parseOptions_bare select_by_mode_def split: prod.splits)

lemma bare_parse: "parseOptions (initial_state example_catalog) no_options = Inr bare_params"
  by code_simp

lemma bare_draw:
  "fst (selectRandomMode ascii_lower (initial_state example_catalog) 1
          (default_actions (initial_state example_catalog)) [] False rng_count)
     = [createResponseObject (initial_state example_catalog) hug2 ''hug'']"
  by code_simp

text \<open>
  C9 on the example catalog.
\<close>

theorem absent_amount_is_one_witness:
  "o_amount no_options = Undefined \<and>
   parseOptions (initial_state example_catalog) no_options = Inr bare_params \<and>
   p_amount bare_params = 1 \<and>
   default_actions (initial_state example_catalog) \<noteq> [] \<and>
   fst (selectRandomMode ascii_lower (initial_state example_catalog) 1
          (default_actions (initial_state example_catalog)) [] False rng_count)
     = [createResponseObject (initial_state example_catalog) hug2 ''hug''] \<and>
   fst (callNeko ascii_lower (initial_state example_catalog) no_options rng_count)
     = Inr (Single (createResponseObject (initial_state example_catalog) hug2 ''hug''))"
proof -
  have absent: "o_amount no_options = Undefined" by (simp add: no_options_def)
  have some: "default_actions (initial_state example_catalog) \<noteq> []"
    by (simp add: default_actions_def initial_state_def VALID_ACTIONS_def)
  from absent_amount_is_one
         [where options = no_options and s = "initial_state example_catalog" and p = bare_params
            and g = rng_count
            and x = "createResponseObject (initial_state example_catalog) hug2 ''hug''"]
    absent bare_parse some bare_draw
  show ?thesis by blast
qed

end
